theory Spec2Isabelle
  imports
    Main
    "HOL-Library.Char_ord"
    "HOL-Library.List_Lexorder"
    "HOL-Library.Multiset"
    "HOL-Library.Word"
begin

unbundle bit_operations_syntax

section \<open>Strings\<close>

text \<open>
  A Go string is a sequence of bytes; it is modelled as a \<^typ>\<open>string\<close>, one
  \<^typ>\<open>char\<close> per byte. The comparison \<open><\<close> of Go strings is the bytewise
  lexicographic order, which is the order of \<^typ>\<open>char list\<close> here.
  The functions of Go's packages \<open>strings\<close>, \<open>unicode\<close> and \<open>unicode/utf8\<close>
  that the program calls are modelled as the library has them: a string of ASCII bytes
  takes the byte-wise fast path, any other string is decoded rune by rune as UTF-8.
\<close>

abbreviation byte :: "char \<Rightarrow> nat" where
  "byte c \<equiv> of_char c"

subsection \<open>UTF-8\<close>

text \<open>
  A rune is an \<open>int32\<close>, here an \<^typ>\<open>int\<close>. \<open>utf8.DecodeRuneInString\<close> returns
  the first rune of a string and its width in bytes; bytes that are not the start of a
  well-formed encoding give \<open>RuneError\<close> (U+FFFD) with width 1. The table
  \<open>first\<close> of the library gives the length of the encoding for a first byte, and
  \<open>acceptRanges\<close> the range of the second byte; the masks and shifts of the library
  are written with \<open>mod\<close> and multiplication.
\<close>

definition RuneError :: int where
  "RuneError = 0xFFFD"

definition rune_size :: "nat \<Rightarrow> nat" where
  "rune_size s0 =
     (if 0xC2 \<le> s0 \<and> s0 \<le> 0xDF then 2
      else if 0xE0 \<le> s0 \<and> s0 \<le> 0xEF then 3
      else if 0xF0 \<le> s0 \<and> s0 \<le> 0xF4 then 4
      else 1)"

definition accept_lo :: "nat \<Rightarrow> nat" where
  "accept_lo s0 = (if s0 = 0xE0 then 0xA0 else if s0 = 0xF0 then 0x90 else 0x80)"

definition accept_hi :: "nat \<Rightarrow> nat" where
  "accept_hi s0 = (if s0 = 0xED then 0x9F else if s0 = 0xF4 then 0x8F else 0xBF)"

definition DecodeRuneInString :: "string \<Rightarrow> int \<times> nat" where
  "DecodeRuneInString s =
     (if length s < 1 then (RuneError, 0)
      else
        (let s0 = byte (s ! 0); sz = rune_size s0 in
         if s0 < 0x80 then (int s0, 1)
         else if sz = 1 then (RuneError, 1)
         else if length s < sz then (RuneError, 1)
         else
           (let s1 = byte (s ! 1) in
            if s1 < accept_lo s0 \<or> accept_hi s0 < s1 then (RuneError, 1)
            else if sz \<le> 2 then (int ((s0 mod 32) * 64 + s1 mod 64), 2)
            else
              (let s2 = byte (s ! 2) in
               if s2 < 0x80 \<or> 0xBF < s2 then (RuneError, 1)
               else if sz \<le> 3
               then (int ((s0 mod 16) * 4096 + (s1 mod 64) * 64 + s2 mod 64), 3)
               else
                 (let s3 = byte (s ! 3) in
                  if s3 < 0x80 \<or> 0xBF < s3 then (RuneError, 1)
                  else (int ((s0 mod 8) * 262144 + (s1 mod 64) * 4096 + (s2 mod 64) * 64
                               + s3 mod 64), 4))))))"

text \<open>\<open>utf8.DecodeLastRuneInString\<close> looks for the start of the last rune among the
  last four bytes and decodes from there; the encoding must end with the string.\<close>

definition RuneStart :: "char \<Rightarrow> bool" where
  "RuneStart b = (\<not> (0x80 \<le> byte b \<and> byte b \<le> 0xBF))"

function scanRuneStart :: "string \<Rightarrow> int \<Rightarrow> int \<Rightarrow> int" where
  "scanRuneStart s start lim =
     (if start \<ge> lim
      then (if RuneStart (s ! nat start) then start else scanRuneStart s (start - 1) lim)
      else start)"
  by pat_completeness auto
termination
  by (relation "measure (\<lambda>(s, start, lim). nat (start - lim + 1))") auto

declare scanRuneStart.simps [simp del]

definition DecodeLastRuneInString :: "string \<Rightarrow> int \<times> nat" where
  "DecodeLastRuneInString s =
     (let n = length s in
      if n = 0 then (RuneError, 0)
      else if byte (s ! (n - 1)) < 0x80 then (int (byte (s ! (n - 1))), 1)
      else
        (let lim = max (int n - 4) 0;
             start0 = scanRuneStart s (int n - 2) lim;
             start = nat (max start0 0)
         in case DecodeRuneInString (drop start s) of
              (r, width) \<Rightarrow> if start + width \<noteq> n then (RuneError, 1) else (r, width)))"

text \<open>\<open>utf8.AppendRune\<close>: a rune out of range or a surrogate is written as
  \<open>RuneError\<close>.\<close>

definition EncodeRune :: "int \<Rightarrow> string" where
  "EncodeRune r =
     (if 0 \<le> r \<and> r \<le> 0x7F then [char_of (nat r)]
      else if 0 \<le> r \<and> r \<le> 0x7FF
      then [char_of (nat (0xC0 + r div 64)), char_of (nat (0x80 + r mod 64))]
      else if r < 0 \<or> 0x10FFFF < r \<or> (0xD800 \<le> r \<and> r \<le> 0xDFFF)
      then [CHR 0xEF, CHR 0xBF, CHR 0xBD]
      else if r \<le> 0xFFFF
      then [char_of (nat (0xE0 + r div 4096)), char_of (nat (0x80 + (r div 64) mod 64)),
            char_of (nat (0x80 + r mod 64))]
      else [char_of (nat (0xF0 + r div 262144)), char_of (nat (0x80 + (r div 4096) mod 64)),
            char_of (nat (0x80 + (r div 64) mod 64)), char_of (nat (0x80 + r mod 64))])"

lemma DecodeRune_size: "s \<noteq> [] \<Longrightarrow> 1 \<le> snd (DecodeRuneInString s)"
  by (simp add: DecodeRuneInString_def Let_def)

lemma rune_size_bounds: "1 \<le> rune_size b \<and> rune_size b \<le> 4"
  by (simp add: rune_size_def)

lemma DecodeRune_size_cases:
  "s \<noteq> [] \<Longrightarrow>
   snd (DecodeRuneInString s) = 1 \<or>
   (snd (DecodeRuneInString s) = rune_size (byte (s ! 0)) \<and> rune_size (byte (s ! 0)) \<le> length s)"
  using rune_size_bounds[of "byte (s ! 0)"]
  by (auto simp: DecodeRuneInString_def Let_def)

lemma DecodeRune_size_le: "snd (DecodeRuneInString s) \<le> length s"
proof (cases "s = []")
  case True
  then show ?thesis by (simp add: DecodeRuneInString_def)
next
  case False
  then have "1 \<le> length s" by (cases s) simp_all
  then show ?thesis using DecodeRune_size_cases[OF False] by linarith
qed

text \<open>\<open>strings.Map\<close> replaces every rune of the string by its image, dropping a
  negative image; an invalid byte counts as \<open>RuneError\<close>. (The library copies the
  bytes of a rune that the mapping leaves unchanged; they are its encoding.)\<close>

function Map :: "(int \<Rightarrow> int) \<Rightarrow> string \<Rightarrow> string" where
  "Map mapping s =
     (if s = [] then []
      else (let c = fst (DecodeRuneInString s); width = snd (DecodeRuneInString s);
                r = mapping c
            in (if r \<ge> 0 then EncodeRune r else []) @ Map mapping (drop width s)))"
  by pat_completeness auto
termination
proof (relation "measure (\<lambda>(mapping, s). length s)", goal_cases)
  case 1
  then show ?case by simp
next
  case (2 mapping s c width r)
  then show ?case using DecodeRune_size[of s] by (cases s) auto
qed

declare Map.simps [simp del]

subsection \<open>Letter case\<close>

text \<open>
  \<open>unicode.ToLower\<close> and \<open>unicode.ToUpper\<close> treat ASCII themselves and look every
  other rune up in the table \<open>CaseRanges\<close> of package \<open>unicode\<close>. The table is data
  of the Unicode standard; the two lookups are parameters of the model.
  \<open>strings.ToLower\<close> and \<open>strings.ToUpper\<close> map the bytes of an ASCII string and
  call \<open>Map\<close> on any other.
\<close>

record unicode_tables =
  lowerCase :: "int \<Rightarrow> int"
  upperCase :: "int \<Rightarrow> int"

definition unicode_ToLower :: "unicode_tables \<Rightarrow> int \<Rightarrow> int" where
  "unicode_ToLower u r =
     (if r \<le> 0x7F then (if 0x41 \<le> r \<and> r \<le> 0x5A then r + 32 else r) else lowerCase u r)"

definition unicode_ToUpper :: "unicode_tables \<Rightarrow> int \<Rightarrow> int" where
  "unicode_ToUpper u r =
     (if r \<le> 0x7F then (if 0x61 \<le> r \<and> r \<le> 0x7A then r - 32 else r) else upperCase u r)"

definition lower_byte :: "char \<Rightarrow> char" where
  "lower_byte c =
     (if CHR ''A'' \<le> c \<and> c \<le> CHR ''Z'' then char_of (of_char c + (32::nat)) else c)"

definition upper_byte :: "char \<Rightarrow> char" where
  "upper_byte c =
     (if CHR ''a'' \<le> c \<and> c \<le> CHR ''z'' then char_of (of_char c - (32::nat)) else c)"

definition isASCII :: "string \<Rightarrow> bool" where
  "isASCII s = list_all (\<lambda>c. byte c < 0x80) s"

definition ToLower :: "unicode_tables \<Rightarrow> string \<Rightarrow> string" where
  "ToLower u s = (if isASCII s then map lower_byte s else Map (unicode_ToLower u) s)"

definition ToUpper :: "unicode_tables \<Rightarrow> string \<Rightarrow> string" where
  "ToUpper u s = (if isASCII s then map upper_byte s else Map (unicode_ToUpper u) s)"

subsection \<open>White space\<close>

text \<open>The ASCII white space of \<open>strings.TrimSpace\<close>: tab, line feed, vertical tab,
  form feed, carriage return and space. \<open>unicode.IsSpace\<close> adds U+0085 and U+00A0 in
  Latin-1 and the runes with property \<open>White_Space\<close> above.\<close>

definition asciiSpace :: "char \<Rightarrow> bool" where
  "asciiSpace c = (c \<in> {CHR 0x09, CHR 0x0A, CHR 0x0B, CHR 0x0C, CHR 0x0D, CHR '' ''})"

definition IsSpace :: "int \<Rightarrow> bool" where
  "IsSpace r =
     (if 0 \<le> r \<and> r \<le> 0xFF
      then r \<in> {0x09, 0x0A, 0x0B, 0x0C, 0x0D, 0x20, 0x85, 0xA0}
      else r = 0x1680 \<or> (0x2000 \<le> r \<and> r \<le> 0x200A) \<or> r = 0x2028 \<or> r = 0x2029 \<or>
           r = 0x202F \<or> r = 0x205F \<or> r = 0x3000)"

text \<open>\<open>indexFunc\<close> and \<open>lastIndexFunc\<close> give the index of the first and of the last
  rune whose test has the given truth value, or \<open>-1\<close>; \<open>lastIndexFunc\<close> is called
  on the prefix \<open>s[0:i]\<close> still to be examined.\<close>

function indexFunc :: "(int \<Rightarrow> bool) \<Rightarrow> string \<Rightarrow> nat \<Rightarrow> bool \<Rightarrow> int" where
  "indexFunc f s i truth =
     (if i < length s
      then (let r = fst (DecodeRuneInString (drop i s));
                width = snd (DecodeRuneInString (drop i s))
            in if f r = truth then int i else indexFunc f s (i + width) truth)
      else - 1)"
  by pat_completeness auto
termination
proof (relation "measure (\<lambda>(f, s, i, truth). length s - i)", goal_cases)
  case 1
  then show ?case by simp
next
  case (2 f s i truth r width)
  then show ?case using DecodeRune_size[of "drop i s"] by auto
qed

declare indexFunc.simps [simp del]

definition TrimLeftFunc :: "(int \<Rightarrow> bool) \<Rightarrow> string \<Rightarrow> string" where
  "TrimLeftFunc f s =
     (let i = indexFunc f s 0 False in if i = - 1 then [] else drop (nat i) s)"

lemma scanRuneStart_le: "scanRuneStart s start lim \<le> start"
proof (induction "nat (start - lim + 1)" arbitrary: start)
  case 0
  then have "\<not> start \<ge> lim" by simp
  then have "scanRuneStart s start lim = start" by (subst scanRuneStart.simps) simp
  then show ?case by simp
next
  case (Suc k)
  show ?case
  proof (cases "start \<ge> lim \<and> \<not> RuneStart (s ! nat start)")
    case True
    have e: "scanRuneStart s start lim = scanRuneStart s (start - 1) lim"
      using True by (subst scanRuneStart.simps) simp
    have "k = nat (start - 1 - lim + 1)" using Suc(2) by linarith
    from Suc(1)[OF this] show ?thesis unfolding e by linarith
  next
    case False
    then have "scanRuneStart s start lim = start" by (subst scanRuneStart.simps) auto
    then show ?thesis by simp
  qed
qed

lemma DecodeLastRune_cases:
  assumes "s \<noteq> []"
  obtains "DecodeLastRuneInString s = (int (byte (s ! (length s - 1))), 1)"
  | "DecodeLastRuneInString s = (RuneError, 1)"
  | start where "start < length s"
      "DecodeLastRuneInString s = DecodeRuneInString (drop start s)"
      "start + snd (DecodeRuneInString (drop start s)) = length s"
proof -
  define start where
    "start = nat (max (scanRuneStart s (int (length s) - 2) (max (int (length s) - 4) 0)) 0)"
  have st: "start < length s"
    using scanRuneStart_le[of s "int (length s) - 2" "max (int (length s) - 4) 0"] assms
    unfolding start_def by (cases s) auto
  have n: "length s \<noteq> 0" using assms by simp
  show thesis
  proof (cases "byte (s ! (length s - 1)) < 0x80")
    case True
    then have "DecodeLastRuneInString s = (int (byte (s ! (length s - 1))), 1)"
      unfolding DecodeLastRuneInString_def Let_def using n by simp
    then show ?thesis using that(1) by blast
  next
    case False
    show ?thesis
    proof (cases "start + snd (DecodeRuneInString (drop start s)) = length s")
      case True
      then have "DecodeLastRuneInString s = DecodeRuneInString (drop start s)"
        unfolding DecodeLastRuneInString_def Let_def start_def[symmetric]
        using n False by (simp add: case_prod_beta)
      then show ?thesis using that(3)[OF st _ True] by blast
    next
      case ne: False
      then have "DecodeLastRuneInString s = (RuneError, 1)"
        unfolding DecodeLastRuneInString_def Let_def start_def[symmetric]
        using n False by (simp add: case_prod_beta)
      then show ?thesis using that(2) by blast
    qed
  qed
qed

lemma DecodeLastRune_size: "s \<noteq> [] \<Longrightarrow> 1 \<le> snd (DecodeLastRuneInString s)"
proof -
  assume s: "s \<noteq> []"
  show ?thesis
  proof (cases rule: DecodeLastRune_cases[OF s])
    case 1
    then show ?thesis by simp
  next
    case 2
    then show ?thesis by simp
  next
    case (3 start)
    then show ?thesis using DecodeRune_size[of "drop start s"] by simp
  qed
qed

lemma DecodeLastRune_size_le: "snd (DecodeLastRuneInString s) \<le> length s"
proof (cases "s = []")
  case True
  then show ?thesis by (simp add: DecodeLastRuneInString_def)
next
  case False
  show ?thesis
  proof (cases rule: DecodeLastRune_cases[OF False])
    case 1
    then show ?thesis using False by (cases s) simp_all
  next
    case 2
    then show ?thesis using False by (cases s) simp_all
  next
    case (3 start)
    then show ?thesis by simp
  qed
qed

function lastIndexFunc :: "(int \<Rightarrow> bool) \<Rightarrow> string \<Rightarrow> bool \<Rightarrow> int" where
  "lastIndexFunc f t truth =
     (if length t > 0
      then (let r = fst (DecodeLastRuneInString t);
                width = snd (DecodeLastRuneInString t)
            in if f r = truth then int (length t - width)
               else lastIndexFunc f (take (length t - width) t) truth)
      else - 1)"
  by pat_completeness auto
termination
proof (relation "measure (\<lambda>(f, t, truth). length t)", goal_cases)
  case 1
  then show ?case by simp
next
  case (2 f t truth r width)
  then show ?case using DecodeLastRune_size[of t] by auto
qed

declare lastIndexFunc.simps [simp del]

definition TrimRightFunc :: "(int \<Rightarrow> bool) \<Rightarrow> string \<Rightarrow> string" where
  "TrimRightFunc f s =
     (let i = lastIndexFunc f s False in
      if i \<ge> 0 \<and> byte (s ! nat i) \<ge> 0x80
      then take (nat i + snd (DecodeRuneInString (drop (nat i) s))) s
      else take (nat (i + 1)) s)"

definition TrimFunc :: "(int \<Rightarrow> bool) \<Rightarrow> string \<Rightarrow> string" where
  "TrimFunc f s = TrimRightFunc f (TrimLeftFunc f s)"

text \<open>
  \<open>strings.TrimSpace\<close> has two loops over ASCII bytes. The first advances \<open>start\<close>
  over white space and hands the rest to \<open>TrimFunc\<close> at a byte outside ASCII; the
  second moves \<open>stop\<close> back from the end and hands \<open>s[start:stop]\<close> to
  \<open>TrimRightFunc\<close> at such a byte. \<open>spaceStart\<close> is the first loop on
  \<open>s[start:]\<close>, \<open>spaceStop\<close> the second on \<open>s[start:stop]\<close>.
\<close>

function spaceStop :: "string \<Rightarrow> string" where
  "spaceStop t =
     (if t = [] then []
      else if byte (last t) \<ge> 0x80 then TrimRightFunc IsSpace t
      else if asciiSpace (last t) then spaceStop (butlast t)
      else t)"
  by pat_completeness auto
termination
  by (relation "measure length") auto

declare spaceStop.simps [simp del]

fun spaceStart :: "string \<Rightarrow> string" where
  "spaceStart [] = []"
| "spaceStart (c # cs) =
     (if byte c \<ge> 0x80 then TrimFunc IsSpace (c # cs)
      else if asciiSpace c then spaceStart cs
      else spaceStop (c # cs))"

definition TrimSpace :: "string \<Rightarrow> string" where
  "TrimSpace s = spaceStart s"

subsection \<open>Prefixes, substrings, joining and splitting\<close>

definition HasPrefix :: "string \<Rightarrow> string \<Rightarrow> bool" where
  "HasPrefix s p = (take (length p) s = p)"

definition HasSuffix :: "string \<Rightarrow> string \<Rightarrow> bool" where
  "HasSuffix s p = (length p \<le> length s \<and> drop (length s - length p) s = p)"

text \<open>\<open>strings.Contains s substr\<close>: \<open>substr\<close> starts at some position of \<open>s\<close>.\<close>

fun Contains :: "string \<Rightarrow> string \<Rightarrow> bool" where
  "Contains [] sub = (sub = [])"
| "Contains (c # cs) sub = (HasPrefix (c # cs) sub \<or> Contains cs sub)"

fun Join :: "string list \<Rightarrow> string \<Rightarrow> string" where
  "Join [] sep = []"
| "Join [p] sep = p"
| "Join (p # q # ps) sep = p @ sep @ Join (q # ps) sep"

text \<open>\<open>strings.Split s sep\<close> for a separator of one byte; the result is never empty.\<close>

fun Split :: "string \<Rightarrow> char \<Rightarrow> string list" where
  "Split [] sep = [[]]"
| "Split (c # cs) sep =
     (if c = sep then [] # Split cs sep
      else (case Split cs sep of [] \<Rightarrow> [[c]] | w # ws \<Rightarrow> (c # w) # ws))"

section \<open>Calendar time\<close>

text \<open>
  A \<open>time.Time\<close> in UTC is modelled by its civil fields. The zero value
  \<open>time.Time{}\<close> is January 1 of year 1, 00:00:00 UTC, and \<open>IsZero\<close> holds of that
  instant alone.
\<close>

record Time =
  t_year :: int
  t_month :: int
  t_day :: int
  t_hour :: int
  t_min :: int
  t_sec :: int
  t_nsec :: int

definition zeroTime :: Time where
  "zeroTime = \<lparr>t_year = 1, t_month = 1, t_day = 1, t_hour = 0, t_min = 0, t_sec = 0, t_nsec = 0\<rparr>"

definition IsZero :: "Time \<Rightarrow> bool" where
  "IsZero t = (t = zeroTime)"

definition isLeap :: "int \<Rightarrow> bool" where
  "isLeap y = (y mod 4 = 0 \<and> (y mod 100 \<noteq> 0 \<or> y mod 400 = 0))"

definition daysIn :: "int \<Rightarrow> int \<Rightarrow> int" where
  "daysIn m y =
     (if m = 2 then (if isLeap y then 29 else 28)
      else if m = 4 \<or> m = 6 \<or> m = 9 \<or> m = 11 then 30 else 31)"

text \<open>
  \<open>time.Date\<close> normalises its arguments. The program calls it with a month in 1..12 and
  a day that was valid in some year, so the only overflow is a day past the end of the
  month, which rolls into the next month.
\<close>

definition time_Date :: "int \<Rightarrow> int \<Rightarrow> int \<Rightarrow> int \<Rightarrow> int \<Rightarrow> int \<Rightarrow> int \<Rightarrow> Time" where
  "time_Date y m d h mi s ns =
     (if d > daysIn m y then
        (if m = 12
         then \<lparr>t_year = y + 1, t_month = 1, t_day = d - daysIn m y,
                t_hour = h, t_min = mi, t_sec = s, t_nsec = ns\<rparr>
         else \<lparr>t_year = y, t_month = m + 1, t_day = d - daysIn m y,
                t_hour = h, t_min = mi, t_sec = s, t_nsec = ns\<rparr>)
      else \<lparr>t_year = y, t_month = m, t_day = d,
             t_hour = h, t_min = mi, t_sec = s, t_nsec = ns\<rparr>)"

subsection \<open>Parsing against a layout\<close>

text \<open>
  \<open>time.Parse layout value\<close> cuts the layout into literal text and the standard chunks
  it recognises. The layouts of the program use the chunks \<open>2006\<close> (a year of four
  digits), \<open>01\<close> (a month of two digits), \<open>02\<close> (a day of two digits), \<open>15\<close>
  (an hour of one or two digits), \<open>04\<close> and \<open>05\<close> (minute and second of two
  digits); everything else in them, the final \<open>Z\<close> included, is literal text.
\<close>

datatype std_chunk =
    Lit string
  | stdLongYear
  | stdZeroMonth
  | stdZeroDay
  | stdHour
  | stdZeroMinute
  | stdZeroSecond

record parse_state =
  p_year :: int
  p_month :: int
  p_day :: int
  p_hour :: int
  p_min :: int
  p_sec :: int
  p_nsec :: int

definition parse_init :: parse_state where
  "parse_init = \<lparr>p_year = 0, p_month = - 1, p_day = - 1, p_hour = 0, p_min = 0, p_sec = 0,
                  p_nsec = 0\<rparr>"

definition is_digit :: "char \<Rightarrow> bool" where
  "is_digit c = (CHR ''0'' \<le> c \<and> c \<le> CHR ''9'')"

definition digit_val :: "char \<Rightarrow> int" where
  "digit_val c = int (of_char c) - 48"

text \<open>\<open>atoi\<close> on a string of digits (no sign): \<open>None\<close> when a byte is not a digit
  or the string is empty.\<close>

fun atoi_acc :: "int \<Rightarrow> string \<Rightarrow> int option" where
  "atoi_acc acc [] = Some acc"
| "atoi_acc acc (c # cs) = (if is_digit c then atoi_acc (acc * 10 + digit_val c) cs else None)"

definition atoi :: "string \<Rightarrow> int option" where
  "atoi s = (if s = [] then None else atoi_acc 0 s)"

text \<open>\<open>getnum s fixed\<close> reads one or two digits; \<open>fixed\<close> demands two.\<close>

definition getnum :: "string \<Rightarrow> bool \<Rightarrow> (int \<times> string) option" where
  "getnum s fixed =
     (case s of
        [] \<Rightarrow> None
      | c # r \<Rightarrow>
          if \<not> is_digit c then None
          else (case r of
                  [] \<Rightarrow> if fixed then None else Some (digit_val c, r)
                | d # r' \<Rightarrow>
                    if \<not> is_digit d then (if fixed then None else Some (digit_val c, r))
                    else Some (digit_val c * 10 + digit_val d, r')))"

definition commaOrPeriod :: "char \<Rightarrow> bool" where
  "commaOrPeriod c = (c = CHR ''.'' \<or> c = CHR '','')"

text \<open>\<open>parseNanoseconds value nbytes\<close>: \<open>value\<close> starts with the separator, followed
  by \<open>nbytes - 1\<close> digits, of which at most nine count.\<close>

definition parseNanoseconds :: "string \<Rightarrow> nat \<Rightarrow> int option" where
  "parseNanoseconds v nbytes =
     (let n = min nbytes 10 in
      case atoi (take (n - 1) (drop 1 v)) of
        None \<Rightarrow> None
      | Some ns \<Rightarrow> Some (ns * 10 ^ (10 - n)))"

fun parse_chunks :: "std_chunk list \<Rightarrow> string \<Rightarrow> parse_state \<Rightarrow> parse_state option" where
  "parse_chunks [] v st = (if v = [] then Some st else None)"
| "parse_chunks (Lit p # cs) v st =
     (if HasPrefix v p then parse_chunks cs (drop (length p) v) st else None)"
| "parse_chunks (stdLongYear # cs) v st =
     (if length v < 4 then None
      else (case atoi (take 4 v) of
              None \<Rightarrow> None
            | Some y \<Rightarrow> parse_chunks cs (drop 4 v) (st\<lparr>p_year := y\<rparr>)))"
| "parse_chunks (stdZeroMonth # cs) v st =
     (case getnum v True of
        None \<Rightarrow> None
      | Some (m, r) \<Rightarrow>
          if m \<le> 0 \<or> 12 < m then None else parse_chunks cs r (st\<lparr>p_month := m\<rparr>))"
| "parse_chunks (stdZeroDay # cs) v st =
     (case getnum v True of
        None \<Rightarrow> None
      | Some (d, r) \<Rightarrow> parse_chunks cs r (st\<lparr>p_day := d\<rparr>))"
| "parse_chunks (stdHour # cs) v st =
     (case getnum v False of
        None \<Rightarrow> None
      | Some (h, r) \<Rightarrow>
          if h < 0 \<or> 24 \<le> h then None else parse_chunks cs r (st\<lparr>p_hour := h\<rparr>))"
| "parse_chunks (stdZeroMinute # cs) v st =
     (case getnum v True of
        None \<Rightarrow> None
      | Some (mi, r) \<Rightarrow>
          if mi < 0 \<or> 60 \<le> mi then None else parse_chunks cs r (st\<lparr>p_min := mi\<rparr>))"
| "parse_chunks (stdZeroSecond # cs) v st =
     (case getnum v True of
        None \<Rightarrow> None
      | Some (s, r) \<Rightarrow>
          if s < 0 \<or> 60 \<le> s then None
          else if length r \<ge> 2 \<and> commaOrPeriod (r ! 0) \<and> is_digit (r ! 1) then
            (let n = 2 + length (takeWhile is_digit (drop 2 r)) in
             case parseNanoseconds r n of
               None \<Rightarrow> None
             | Some ns \<Rightarrow> parse_chunks cs (drop n r) (st\<lparr>p_sec := s, p_nsec := ns\<rparr>))
          else parse_chunks cs r (st\<lparr>p_sec := s\<rparr>))"

text \<open>After the layout is consumed, a month or day the layout did not mention is 1, the
  day is checked against the month and year, and the time is built in UTC.\<close>

definition time_Parse :: "std_chunk list \<Rightarrow> string \<Rightarrow> Time option" where
  "time_Parse layout v =
     (case parse_chunks layout v parse_init of
        None \<Rightarrow> None
      | Some st \<Rightarrow>
          (let m = (if p_month st < 0 then 1 else p_month st);
               d = (if p_day st < 0 then 1 else p_day st)
           in if d < 1 \<or> d > daysIn m (p_year st) then None
              else Some (time_Date (p_year st) m d (p_hour st) (p_min st) (p_sec st)
                           (p_nsec st))))"

subsection \<open>Formatting integers\<close>

fun dec_digits :: "nat \<Rightarrow> string" where
  "dec_digits n =
     (if n < 10 then [char_of (48 + n)]
      else dec_digits (n div 10) @ [char_of (48 + n mod 10)])"

declare dec_digits.simps [simp del]

text \<open>The verb \<open>%0wd\<close> of \<open>fmt.Sprintf\<close>: decimal, padded with zeros to width \<open>w\<close>,
  the sign counted in the width.\<close>

definition fmt_0d :: "nat \<Rightarrow> int \<Rightarrow> string" where
  "fmt_0d w n =
     (if n < 0
      then CHR ''-'' # replicate (w - 1 - length (dec_digits (nat (- n)))) CHR ''0''
             @ dec_digits (nat (- n))
      else replicate (w - length (dec_digits (nat n))) CHR ''0'' @ dec_digits (nat n))"

section \<open>Package vcard: contacts\<close>

datatype EmailEntry = EmailEntry (email_Value: string) (email_Type: string)

datatype PhoneEntry = PhoneEntry (phone_Value: string) (phone_Type: string)

record Contact =
  Name :: string
  FamilyName :: string
  GivenName :: string
  MiddleName :: string
  Prefix :: string
  Suffix :: string
  Emails :: "EmailEntry list"
  Phones :: "PhoneEntry list"
  Organization :: string
  Note :: string
  Address :: string
  Birthday :: Time
  FileName :: string

subsection \<open>Birthdays\<close>

text \<open>The six layouts of \<open>parseBirthday\<close>, in its order:
  \<open>2006-01-02\<close>, \<open>20060102\<close>, \<open>--01-02\<close>, \<open>--0102\<close>,
  \<open>2006-01-02T15:04:05Z\<close> and \<open>2006-01-02T15:04:05\<close>.\<close>

definition layout_iso :: "std_chunk list" where
  "layout_iso = [stdLongYear, Lit ''-'', stdZeroMonth, Lit ''-'', stdZeroDay]"

definition layout_compact :: "std_chunk list" where
  "layout_compact = [stdLongYear, stdZeroMonth, stdZeroDay]"

definition layout_md :: "std_chunk list" where
  "layout_md = [Lit ''--'', stdZeroMonth, Lit ''-'', stdZeroDay]"

definition layout_md_compact :: "std_chunk list" where
  "layout_md_compact = [Lit ''--'', stdZeroMonth, stdZeroDay]"

definition layout_datetime_z :: "std_chunk list" where
  "layout_datetime_z =
     [stdLongYear, Lit ''-'', stdZeroMonth, Lit ''-'', stdZeroDay, Lit ''T'',
      stdHour, Lit '':'', stdZeroMinute, Lit '':'', stdZeroSecond, Lit ''Z'']"

definition layout_datetime :: "std_chunk list" where
  "layout_datetime =
     [stdLongYear, Lit ''-'', stdZeroMonth, Lit ''-'', stdZeroDay, Lit ''T'',
      stdHour, Lit '':'', stdZeroMinute, Lit '':'', stdZeroSecond]"

definition formats :: "std_chunk list list" where
  "formats = [layout_iso, layout_compact, layout_md, layout_md_compact,
              layout_datetime_z, layout_datetime]"

text \<open>The loop over the layouts returns at the first one that parses; \<open>None\<close> is
  falling out of the loop. \<open>cy\<close> is the current calendar year, \<open>time.Now().Year()\<close>.\<close>

fun try_formats :: "int \<Rightarrow> string \<Rightarrow> std_chunk list list \<Rightarrow> Time option" where
  "try_formats cy birthday [] = None"
| "try_formats cy birthday (f # fs) =
     (case time_Parse f birthday of
        Some parsedTime \<Rightarrow>
          Some (if HasPrefix birthday ''--''
                then time_Date cy (t_month parsedTime) (t_day parsedTime) 0 0 0 0
                else parsedTime)
      | None \<Rightarrow> try_formats cy birthday fs)"

definition parseBirthday :: "int \<Rightarrow> string \<Rightarrow> Time" where
  "parseBirthday cy raw =
     (let birthday = TrimSpace raw in
      if birthday = [] then zeroTime
      else (case try_formats cy birthday formats of
              Some t \<Rightarrow> t
            | None \<Rightarrow>
                if length birthday \<ge> 10 then
                  (case time_Parse layout_iso (take 10 birthday) of
                     Some t \<Rightarrow> t
                   | None \<Rightarrow> zeroTime)
                else zeroTime))"

definition FormatBirthdayForDisplay :: "int \<Rightarrow> Time \<Rightarrow> string" where
  "FormatBirthdayForDisplay cy birthday =
     (if IsZero birthday then []
      else if t_year birthday = cy
      then fmt_0d 2 (t_month birthday) @ ''/'' @ fmt_0d 2 (t_day birthday)
      else fmt_0d 2 (t_month birthday) @ ''/'' @ fmt_0d 2 (t_day birthday) @ ''/''
             @ fmt_0d 4 (t_year birthday))"

subsection \<open>Decoded cards\<close>

text \<open>
  A card of the vCard library maps a property name to its fields, in file order; a field
  has a value and parameters. The parameters are a Go map, which the program also
  iterates over: the association list gives them in the order of that iteration.
\<close>

datatype Field = Field (f_Value: string) (f_Params: "(string \<times> string list) list")

type_synonym Card = "(string \<times> Field list) list"

definition Card_Get :: "Card \<Rightarrow> string \<Rightarrow> Field option" where
  "Card_Get vc k =
     (case map_of vc k of None \<Rightarrow> None | Some [] \<Rightarrow> None | Some (f # _) \<Rightarrow> Some f)"

definition legacyTypes :: "string list" where
  "legacyTypes = [''HOME'', ''WORK'', ''CELL'', ''FAX'', ''PAGER'', ''VOICE'', ''MSG'']"

fun legacyType :: "unicode_tables \<Rightarrow> (string \<times> string list) list \<Rightarrow> string" where
  "legacyType u [] = []"
| "legacyType u ((param, vs) # ps) =
     (if ToUpper u param \<in> set legacyTypes then ToUpper u param else legacyType u ps)"

definition getFieldType :: "unicode_tables \<Rightarrow> (string \<times> string list) list \<Rightarrow> string" where
  "getFieldType u params =
     (case map_of params ''TYPE'' of
        Some (t # _) \<Rightarrow> ToUpper u t
      | _ \<Rightarrow> legacyType u params)"

definition formatAddress :: "string \<Rightarrow> string" where
  "formatAddress address =
     (let parts = Split address CHR '';'' in
      Join (concat (map (\<lambda>i. if length parts > i \<and> parts ! i \<noteq> [] then [parts ! i] else [])
                        [2, 3, 4, 5, 6]))
           '', '')"

text \<open>The body of the decoding loop of \<open>processVCardFile\<close>: one card block becomes
  one contact. A field the card lacks stays at its zero value. \<open>u\<close> are the case
  tables and \<open>cy\<close> the current calendar year.\<close>

definition emptyContact :: Contact where
  "emptyContact =
     \<lparr>Name = [], FamilyName = [], GivenName = [], MiddleName = [], Prefix = [], Suffix = [],
      Emails = [], Phones = [], Organization = [], Note = [], Address = [],
      Birthday = zeroTime, FileName = []\<rparr>"

definition namePart :: "string list \<Rightarrow> nat \<Rightarrow> string" where
  "namePart parts i = (if length parts > i \<and> parts ! i \<noteq> [] then parts ! i else [])"

definition contactOfCard :: "unicode_tables \<Rightarrow> int \<Rightarrow> string \<Rightarrow> Card \<Rightarrow> Contact" where
  "contactOfCard u cy filePath vc =
     (let c0 = emptyContact\<lparr>FileName := filePath\<rparr>;
          c1 = (case Card_Get vc ''FN'' of None \<Rightarrow> c0 | Some fn \<Rightarrow> c0\<lparr>Name := f_Value fn\<rparr>);
          c2 = (case Card_Get vc ''N'' of
                  None \<Rightarrow> c1
                | Some nameField \<Rightarrow>
                    (let parts = Split (f_Value nameField) CHR '';'' in
                     c1\<lparr>FamilyName := namePart parts 0, GivenName := namePart parts 1,
                        MiddleName := namePart parts 2, Prefix := namePart parts 3,
                        Suffix := namePart parts 4\<rparr>));
          c3 = (case map_of vc ''EMAIL'' of
                  None \<Rightarrow> c2
                | Some emailFields \<Rightarrow>
                    c2\<lparr>Emails := map (\<lambda>field. EmailEntry (f_Value field)
                                                  (getFieldType u (f_Params field)))
                                       emailFields\<rparr>);
          c4 = (case map_of vc ''TEL'' of
                  None \<Rightarrow> c3
                | Some phoneFields \<Rightarrow>
                    c3\<lparr>Phones := map (\<lambda>field. PhoneEntry (f_Value field)
                                                  (getFieldType u (f_Params field)))
                                       phoneFields\<rparr>);
          c5 = (case Card_Get vc ''ORG'' of
                  None \<Rightarrow> c4 | Some org \<Rightarrow> c4\<lparr>Organization := f_Value org\<rparr>);
          c6 = (case Card_Get vc ''NOTE'' of
                  None \<Rightarrow> c5 | Some note \<Rightarrow> c5\<lparr>Note := f_Value note\<rparr>);
          c7 = (case Card_Get vc ''ADR'' of
                  None \<Rightarrow> c6 | Some addr \<Rightarrow> c6\<lparr>Address := formatAddress (f_Value addr)\<rparr>)
      in (case Card_Get vc ''BDAY'' of
            None \<Rightarrow> c7
          | Some bday \<Rightarrow> c7\<lparr>Birthday := parseBirthday cy (f_Value bday)\<rparr>))"

section \<open>The world: address books, output files, log\<close>

text \<open>
  What the decoder returns for a file, call after call: a card or a decode error; after
  the last element it returns \<open>io.EOF\<close>. A file that cannot be opened has no decoder.
\<close>

datatype decode_result = DecodeCard Card | DecodeErr string

datatype vcf_file = OpenFails string | Opens "decode_result list"

text \<open>
  \<open>filepath.WalkDir\<close> calls the function it is given once per directory entry, in
  lexical order, with the entry's path. The function of \<open>loadContactsFromPath\<close> always
  returns \<open>nil\<close>, so the walk never stops early and itself returns \<open>nil\<close>: its
  calls are a fixed sequence, an access error, a directory or a file each.
\<close>

datatype walk_event =
    WalkError string string
  | WalkDirectory string
  | WalkFile string vcf_file

datatype path_state = NotExist | Walk "walk_event list"

datatype error =
    PathDoesNotExist string
  | NoVcfFilesFound string
  | NoFilesProcessed string
  | FailedToOpen string
  | FailedToDecode string
  | NoValidContacts
  | AllAddressBooksFailed "(string \<times> error) list"
  | FailedToLoadContacts error
  | OutputFileExists string
  | FailedToCreateOutput string
  | UnsupportedFormat string
  | FailedToWriteCSVHeader string
  | FailedToWriteCSVRecord string
  | FailedToEncodeJSON string

datatype log_level = Debug | Info | Warn

datatype log_value = LStr string | LNat nat | LErr error | LErrs "(string \<times> error) list"

type_synonym log_entry = "log_level \<times> string \<times> (string \<times> log_value) list"

record world =
  now_year :: int
  unicode :: unicode_tables
  books :: "string \<Rightarrow> path_state"
  files :: "string \<Rightarrow> string option"
  create_fails :: "string \<Rightarrow> bool"
  stdout :: string
  logs :: "log_entry list"

definition slog :: "log_level \<Rightarrow> string \<Rightarrow> (string \<times> log_value) list \<Rightarrow> world \<Rightarrow> world" where
  "slog lvl msg attrs w = w\<lparr>logs := logs w @ [(lvl, msg, attrs)]\<rparr>"

subsection \<open>Loading contacts\<close>

text \<open>The loop of \<open>processVCardFile\<close> over the decoder's results. It appends to the
  caller's slice as it goes, and returns at the first decode error.\<close>

fun decodeLoop ::
  "string \<Rightarrow> decode_result list \<Rightarrow> nat \<Rightarrow> Contact list \<Rightarrow> world
     \<Rightarrow> error option \<times> Contact list \<times> world" where
  "decodeLoop filePath [] fileContacts contacts w =
     (if fileContacts = 0 then (Some NoValidContacts, contacts, w) else (None, contacts, w))"
| "decodeLoop filePath (DecodeErr e # rest) fileContacts contacts w =
     (Some (FailedToDecode e), contacts, w)"
| "decodeLoop filePath (DecodeCard vc # rest) fileContacts contacts w =
     (let contact = contactOfCard (unicode w) (now_year w) filePath vc;
          w' = slog Debug ''Loaded contact''
                 [(''name'', LStr (Name contact)), (''file'', LStr filePath)] w
      in decodeLoop filePath rest (fileContacts + 1) (contacts @ [contact]) w')"

definition processVCardFile ::
  "string \<Rightarrow> vcf_file \<Rightarrow> Contact list \<Rightarrow> world \<Rightarrow> error option \<times> Contact list \<times> world" where
  "processVCardFile filePath file contacts w =
     (case file of
        OpenFails e \<Rightarrow> (Some (FailedToOpen e), contacts, w)
      | Opens results \<Rightarrow> decodeLoop filePath results 0 contacts w)"

record walk_state =
  ws_contacts :: "Contact list"
  vcfCount :: nat
  processedCount :: nat
  errorCount :: nat

definition walkFn :: "walk_event \<Rightarrow> walk_state \<times> world \<Rightarrow> walk_state \<times> world" where
  "walkFn ev sw =
     (case sw of (s, w) \<Rightarrow>
      (case ev of
         WalkError filePath e \<Rightarrow>
           (s, slog Warn ''Error accessing file during directory walk''
                 [(''path'', LStr filePath), (''error'', LStr e)] w)
       | WalkDirectory filePath \<Rightarrow> (s, w)
       | WalkFile filePath file \<Rightarrow>
           if \<not> HasSuffix (ToLower (unicode w) filePath) ''.vcf'' then
             (s, slog Debug ''Skipping non-vcf file'' [(''file'', LStr filePath)] w)
           else
             (let s1 = s\<lparr>vcfCount := vcfCount s + 1\<rparr>;
                  w1 = slog Debug ''Processing vCard file'' [(''file'', LStr filePath)] w
              in (case processVCardFile filePath file (ws_contacts s1) w1 of
                    (Some err, contacts', w2) \<Rightarrow>
                      (s1\<lparr>ws_contacts := contacts', errorCount := errorCount s1 + 1\<rparr>,
                       slog Warn ''Failed to process vCard file''
                         [(''file'', LStr filePath), (''error'', LErr err)] w2)
                  | (None, contacts', w2) \<Rightarrow>
                      (s1\<lparr>ws_contacts := contacts',
                          processedCount := processedCount s1 + 1\<rparr>, w2)))))"

definition walkDir :: "walk_event list \<Rightarrow> walk_state \<times> world \<Rightarrow> walk_state \<times> world" where
  "walkDir evs sw = fold walkFn evs sw"

definition loadContactsFromPath :: "string \<Rightarrow> world \<Rightarrow> (error + Contact list) \<times> world" where
  "loadContactsFromPath path w0 =
     (let w = slog Debug ''Loading contacts from path'' [(''path'', LStr path)] w0 in
      case books w path of
        NotExist \<Rightarrow> (Inl (PathDoesNotExist path), w)
      | Walk evs \<Rightarrow>
          (case walkDir evs
                  (\<lparr>ws_contacts = [], vcfCount = 0, processedCount = 0, errorCount = 0\<rparr>, w) of
             (s, w1) \<Rightarrow>
               (let w2 = slog Debug ''Finished processing directory''
                           [(''path'', LStr path), (''vcf_files_found'', LNat (vcfCount s)),
                            (''successfully_processed'', LNat (processedCount s)),
                            (''errors'', LNat (errorCount s)),
                            (''contacts_loaded'', LNat (length (ws_contacts s)))] w1
                in if vcfCount s = 0 then (Inl (NoVcfFilesFound path), w2)
                   else if processedCount s = 0 \<and> errorCount s > 0
                   then (Inl (NoFilesProcessed path), w2)
                   else (Inr (ws_contacts s), w2))))"

text \<open>The loop of \<open>LoadContacts\<close> over the paths, with its two accumulators.\<close>

fun loadLoop ::
  "string list \<Rightarrow> Contact list \<Rightarrow> (string \<times> error) list \<Rightarrow> world
     \<Rightarrow> Contact list \<times> (string \<times> error) list \<times> world" where
  "loadLoop [] contacts loadErrors w = (contacts, loadErrors, w)"
| "loadLoop (path # paths) contacts loadErrors w =
     (case loadContactsFromPath path w of
        (Inl err, w') \<Rightarrow> loadLoop paths contacts (loadErrors @ [(path, err)]) w'
      | (Inr pathContacts, w') \<Rightarrow> loadLoop paths (contacts @ pathContacts) loadErrors w')"

definition warnAll :: "(string \<times> error) list \<Rightarrow> world \<Rightarrow> world" where
  "warnAll loadErrors w =
     fold (\<lambda>errMsg. slog Warn ''Failed to load contacts from address book''
                      [(''error'', LErrs [errMsg])]) loadErrors w"

definition LoadContacts :: "string list \<Rightarrow> world \<Rightarrow> (error + Contact list) \<times> world" where
  "LoadContacts addressBookPaths w0 =
     (case loadLoop addressBookPaths [] [] w0 of
        (contacts, loadErrors, w) \<Rightarrow>
          if length loadErrors > 0 \<and> length contacts = 0
          then (Inl (AllAddressBooksFailed loadErrors), w)
          else
            (let w1 = (if length loadErrors > 0 then warnAll loadErrors w else w);
                 w2 = (if length contacts = 0
                       then slog Info ''No contacts found in any address book'' [] w1
                       else slog Debug ''Loaded contacts''
                              [(''total'', LNat (length contacts)),
                               (''from_paths'', LNat (length addressBookPaths))] w1)
             in (Inr contacts, w2)))"

section \<open>Package app\<close>

subsection \<open>Filtering\<close>

definition emailSearchText :: "unicode_tables \<Rightarrow> EmailEntry \<Rightarrow> string" where
  "emailSearchText u email =
     ToLower u (email_Value email) @ '' ''
       @ (if email_Type email \<noteq> [] then ToLower u (email_Type email) @ '' '' else [])"

definition phoneSearchText :: "unicode_tables \<Rightarrow> PhoneEntry \<Rightarrow> string" where
  "phoneSearchText u phone =
     ToLower u (phone_Value phone) @ '' ''
       @ (if phone_Type phone \<noteq> [] then ToLower u (phone_Type phone) @ '' '' else [])"

text \<open>The string builder of \<open>buildContactSearchText\<close>: every piece it writes is
  followed by one space; the whole is trimmed at the end.\<close>

definition buildContactSearchText :: "unicode_tables \<Rightarrow> Contact \<Rightarrow> string" where
  "buildContactSearchText u contact =
     TrimSpace
       ((if Name contact \<noteq> [] then ToLower u (Name contact) @ '' '' else [])
        @ concat (map (emailSearchText u) (Emails contact))
        @ concat (map (phoneSearchText u) (Phones contact))
        @ (if Organization contact \<noteq> [] then ToLower u (Organization contact) @ '' '' else [])
        @ (if Note contact \<noteq> [] then ToLower u (Note contact) @ '' '' else [])
        @ (if Address contact \<noteq> [] then ToLower u (Address contact) @ '' '' else []))"

definition matchesFilter :: "unicode_tables \<Rightarrow> Contact \<Rightarrow> string list \<Rightarrow> bool" where
  "matchesFilter u contact filter_terms =
     (if length filter_terms = 0 then True
      else Contains (buildContactSearchText u contact) (ToLower u (Join filter_terms '' '')))"

definition loadAndFilterContacts ::
  "string list \<Rightarrow> string list \<Rightarrow> world \<Rightarrow> (error + Contact list) \<times> world" where
  "loadAndFilterContacts paths filter_terms w =
     (case LoadContacts paths w of
        (Inl err, w') \<Rightarrow> (Inl (FailedToLoadContacts err), w')
      | (Inr contacts, w') \<Rightarrow>
          if length filter_terms = 0 then (Inr contacts, w')
          else (Inr (filter (\<lambda>contact. matchesFilter (unicode w') contact filter_terms)
                       contacts), w'))"

subsection \<open>Sort keys\<close>

definition extractSortKey :: "unicode_tables \<Rightarrow> Contact \<Rightarrow> string" where
  "extractSortKey u contact =
     (if FamilyName contact \<noteq> [] then ToLower u (FamilyName contact)
      else if Organization contact \<noteq> [] \<and> Name contact \<noteq> []
      then ToLower u (Organization contact)
      else if Name contact \<noteq> [] then ToLower u (Name contact)
      else [])"

subsection \<open>Sorting\<close>

text \<open>The comparison functions that \<open>sortContacts\<close> and
  \<open>sortContactsByBirthday\<close> pass to \<open>sort.Slice\<close>, on the two contacts at the
  indices they are called with.\<close>

definition keyLess :: "unicode_tables \<Rightarrow> bool \<Rightarrow> Contact \<Rightarrow> Contact \<Rightarrow> bool" where
  "keyLess u reverse ci cj =
     (let keyI = extractSortKey u ci; keyJ = extractSortKey u cj
      in if reverse then keyI > keyJ else keyI < keyJ)"


subsection \<open>Export\<close>

text \<open>
  The encoders of Go's packages \<open>encoding/csv\<close> and \<open>encoding/json\<close> are
  parameters: \<open>csv_Write comma record\<close> gives the bytes of one CSV line, or fails
  (an invalid delimiter); \<open>json_Encode contacts\<close> gives the indented JSON text.
\<close>

record encoders =
  csv_Write :: "char \<Rightarrow> string list \<Rightarrow> string option"
  json_Encode :: "Contact list \<Rightarrow> string option"

definition formatEmailsForExport :: "unicode_tables \<Rightarrow> EmailEntry list \<Rightarrow> string" where
  "formatEmailsForExport u emails =
     (if length emails = 0 then []
      else Join (map (\<lambda>email. if email_Type email \<noteq> []
                               then email_Value email @ '' ('' @ ToLower u (email_Type email) @ '')''
                               else email_Value email) emails) ''; '')"

definition formatPhonesForExport :: "unicode_tables \<Rightarrow> PhoneEntry list \<Rightarrow> string" where
  "formatPhonesForExport u phones =
     (if length phones = 0 then []
      else Join (map (\<lambda>phone. if phone_Type phone \<noteq> []
                               then phone_Value phone @ '' ('' @ ToLower u (phone_Type phone) @ '')''
                               else phone_Value phone) phones) ''; '')"

definition csvRecord :: "unicode_tables \<Rightarrow> Contact \<Rightarrow> string list" where
  "csvRecord u contact =
     [Name contact, formatEmailsForExport u (Emails contact),
      formatPhonesForExport u (Phones contact), Organization contact, Note contact,
      Address contact]"

text \<open>The loop of \<open>exportCSV\<close> over the contacts; the bytes written so far are
  flushed to the writer also when a line fails.\<close>

fun csvRows ::
  "unicode_tables \<Rightarrow> encoders \<Rightarrow> char \<Rightarrow> Contact list \<Rightarrow> string \<Rightarrow> error option \<times> string" where
  "csvRows u enc comma [] out = (None, out)"
| "csvRows u enc comma (contact # contacts) out =
     (case csv_Write enc comma (csvRecord u contact) of
        None \<Rightarrow> (Some (FailedToWriteCSVRecord ''csv: invalid field or comment delimiter''), out)
      | Some line \<Rightarrow> csvRows u enc comma contacts (out @ line))"

definition exportCSV ::
  "unicode_tables \<Rightarrow> encoders \<Rightarrow> Contact list \<Rightarrow> string \<Rightarrow> error option \<times> string" where
  "exportCSV u enc contacts delimiter =
     (let comma = (if length delimiter > 0 then delimiter ! 0 else CHR '','') in
      case csv_Write enc comma
             [''Name'', ''Emails'', ''Phones'', ''Organization'', ''Note'', ''Address''] of
        None \<Rightarrow> (Some (FailedToWriteCSVHeader ''csv: invalid field or comment delimiter''), [])
      | Some header \<Rightarrow> csvRows u enc comma contacts header)"

definition exportJSON :: "encoders \<Rightarrow> Contact list \<Rightarrow> error option \<times> string" where
  "exportJSON enc contacts =
     (case json_Encode enc contacts of
        None \<Rightarrow> (Some (FailedToEncodeJSON ''json: unsupported value''), [])
      | Some text \<Rightarrow> (None, text))"

datatype writer = Stdout | FileWriter string

definition writeTo :: "writer \<Rightarrow> string \<Rightarrow> world \<Rightarrow> world" where
  "writeTo wr bytes w =
     (case wr of
        Stdout \<Rightarrow> w\<lparr>stdout := stdout w @ bytes\<rparr>
      | FileWriter path \<Rightarrow>
          w\<lparr>files := (files w)(path := Some (case files w path of None \<Rightarrow> bytes
                                                | Some old \<Rightarrow> old @ bytes))\<rparr>)"

text \<open>\<open>os.Stat\<close> succeeds on a path that exists; \<open>os.Create\<close> makes an empty file
  unless it fails.\<close>

definition openOutput :: "string \<Rightarrow> world \<Rightarrow> error + (writer \<times> world)" where
  "openOutput output w =
     (if output \<noteq> [] then
        (if files w output \<noteq> None then Inl (OutputFileExists output)
         else if create_fails w output then Inl (FailedToCreateOutput output)
         else Inr (FileWriter output, w\<lparr>files := (files w)(output := Some [])\<rparr>))
      else Inr (Stdout, w))"

definition ExportContacts ::
  "encoders \<Rightarrow> string list \<Rightarrow> string \<Rightarrow> string \<Rightarrow> string \<Rightarrow> string list \<Rightarrow> world
     \<Rightarrow> error option \<times> world" where
  "ExportContacts enc paths format delimiter output filter_terms w =
     (case loadAndFilterContacts paths filter_terms w of
        (Inl err, w1) \<Rightarrow> (Some err, w1)
      | (Inr contacts, w1) \<Rightarrow>
          (case openOutput output w1 of
             Inl err \<Rightarrow> (Some err, w1)
           | Inr (wr, w2) \<Rightarrow>
               if format = ''csv'' then
                 (case exportCSV (unicode w2) enc contacts delimiter of
                    (res, bytes) \<Rightarrow> (res, writeTo wr bytes w2))
               else if format = ''json'' then
                 (case exportJSON enc contacts of
                    (res, bytes) \<Rightarrow> (res, writeTo wr bytes w2))
               else (Some (UnsupportedFormat format), w2)))"

(*PROPERTIES-BEGIN*)
section \<open>Notions used in the statements\<close>

text \<open>Two worlds that differ in the log only.\<close>

definition elog :: "world \<Rightarrow> world \<Rightarrow> bool" where
  "elog w w' = (\<exists>l. w' = w\<lparr>logs := l\<rparr>)"

text \<open>What one path contributes: the result of \<open>loadContactsFromPath\<close> for it, the
  contacts of the paths that loaded, in path order, and the failures of the others.\<close>

definition pathResult :: "world \<Rightarrow> string \<Rightarrow> error + Contact list" where
  "pathResult w p = fst (loadContactsFromPath p w)"

definition collected :: "world \<Rightarrow> string list \<Rightarrow> Contact list" where
  "collected w paths =
     concat (map (\<lambda>p. case pathResult w p of Inl e \<Rightarrow> [] | Inr cs \<Rightarrow> cs) paths)"

definition failures :: "world \<Rightarrow> string list \<Rightarrow> (string \<times> error) list" where
  "failures w paths =
     concat (map (\<lambda>p. case pathResult w p of Inl e \<Rightarrow> [(p, e)] | Inr cs \<Rightarrow> []) paths)"

text \<open>The counters of the directory walk: every eligible file is counted as processed
  or as an error, and a processed file has left a contact.\<close>

definition walk_inv :: "walk_state \<Rightarrow> bool" where
  "walk_inv s = (vcfCount s = processedCount s + errorCount s \<and>
                 (0 < processedCount s \<longrightarrow> ws_contacts s \<noteq> []))"

text \<open>The search text as the specification describes it: the pieces of the contact in
  their fixed order, each lowercased, joined by single spaces and trimmed.\<close>

definition emailPieces :: "EmailEntry \<Rightarrow> string list" where
  "emailPieces email =
     email_Value email # (if email_Type email \<noteq> [] then [email_Type email] else [])"

definition phonePieces :: "PhoneEntry \<Rightarrow> string list" where
  "phonePieces phone =
     phone_Value phone # (if phone_Type phone \<noteq> [] then [phone_Type phone] else [])"

definition searchPieces :: "Contact \<Rightarrow> string list" where
  "searchPieces contact =
     (if Name contact \<noteq> [] then [Name contact] else [])
     @ concat (map emailPieces (Emails contact))
     @ concat (map phonePieces (Phones contact))
     @ (if Organization contact \<noteq> [] then [Organization contact] else [])
     @ (if Note contact \<noteq> [] then [Note contact] else [])
     @ (if Address contact \<noteq> [] then [Address contact] else [])"

definition searchBlob :: "unicode_tables \<Rightarrow> Contact \<Rightarrow> string" where
  "searchBlob u contact = TrimSpace (Join (map (ToLower u) (searchPieces contact)) '' '')"

definition spacedLower :: "unicode_tables \<Rightarrow> string list \<Rightarrow> string" where
  "spacedLower u ps = concat (map (\<lambda>p. ToLower u p @ '' '') ps)"




text \<open>An address book with a good file and a file whose second block does not decode.\<close>

definition exampleCard :: Card where
  "exampleCard =
     [(''FN'', [Field ''John Doe'' []]), (''N'', [Field ''Doe;John;;;'' []]),
      (''EMAIL'', [Field ''john@example.com'' [(''TYPE'', [''home''])]]),
      (''BDAY'', [Field ''1990-01-15'' []])]"

text \<open>The case tables on the letters of Latin-1.\<close>

definition latin1Tables :: unicode_tables where
  "latin1Tables =
     \<lparr>lowerCase = (\<lambda>r. if (0xC0 \<le> r \<and> r \<le> 0xD6) \<or> (0xD8 \<le> r \<and> r \<le> 0xDE) then r + 32
                       else r),
      upperCase = (\<lambda>r. if (0xE0 \<le> r \<and> r \<le> 0xF6) \<or> (0xF8 \<le> r \<and> r \<le> 0xFE) then r - 32
                       else if r = 0xFF then 0x178 else if r = 0xB5 then 0x39C else r)\<rparr>"

definition exampleWorld :: world where
  "exampleWorld =
     \<lparr>now_year = 2026, unicode = latin1Tables,
      books = (\<lambda>p. if p = ''book''
                    then Walk [WalkDirectory ''book'',
                               WalkFile ''book/a.vcf'' (Opens [DecodeCard exampleCard]),
                               WalkFile ''book/b.vcf''
                                 (Opens [DecodeCard exampleCard,
                                         DecodeErr ''vcard: no END field found''])]
                    else NotExist),
      files = (\<lambda>p. None), create_fails = (\<lambda>p. False), stdout = [], logs = []\<rparr>"

definition exampleEncoders :: encoders where
  "exampleEncoders =
     \<lparr>csv_Write = (\<lambda>comma fields. Some (Join fields [comma] @ [CHR 0x0A])),
      json_Encode = (\<lambda>contacts. Some ''[]'')\<rparr>"

definition aliceBrown :: Contact where
  "aliceBrown = emptyContact\<lparr>Name := ''Alice Brown'',
                              Emails := [EmailEntry ''ab@example.com'' ''WORK'']\<rparr>"

section \<open>The string functions\<close>

text \<open>On ASCII text \<open>TrimSpace\<close> drops the ASCII white space at both ends.\<close>

lemma spaceStop_Nil: "spaceStop [] = []"
  by (subst spaceStop.simps) simp

lemma spaceStop_snoc:
  "spaceStop (t @ [c]) =
     (if byte c \<ge> 0x80 then TrimRightFunc IsSpace (t @ [c])
      else if asciiSpace c then spaceStop t else t @ [c])"
  by (subst spaceStop.simps) simp

lemma spaceStop_ascii: "isASCII t \<Longrightarrow> spaceStop t = rev (dropWhile asciiSpace (rev t))"
proof (induction t rule: rev_induct)
  case Nil
  then show ?case by (simp add: spaceStop_Nil)
next
  case (snoc c t)
  then have "byte c < 0x80" "isASCII t" by (simp_all add: isASCII_def)
  then show ?case using snoc.IH by (simp add: spaceStop_snoc)
qed

lemma TrimSpace_ascii:
  "isASCII s \<Longrightarrow> TrimSpace s = rev (dropWhile asciiSpace (rev (dropWhile asciiSpace s)))"
  unfolding TrimSpace_def
proof (induction s)
  case Nil
  then show ?case by simp
next
  case (Cons c cs)
  then have c: "byte c < 0x80" and cs: "isASCII cs" by (simp_all add: isASCII_def)
  show ?case
  proof (cases "asciiSpace c")
    case True
    then show ?thesis using c Cons.IH[OF cs] by simp
  next
    case False
    then show ?thesis using c spaceStop_ascii[OF Cons.prems] by simp
  qed
qed

lemma accept_lo_ge: "0x80 \<le> accept_lo b"
  by (simp add: accept_lo_def)

lemma DecodeRune_snoc_space:
  assumes "t \<noteq> []"
  shows "DecodeRuneInString (t @ '' '') = DecodeRuneInString t"
proof -
  note b = rune_size_bounds[of "byte (t ! 0)"] accept_lo_ge[of "byte (t ! 0)"]
  consider a where "t = [a]" | a b where "t = [a, b]" | a b c where "t = [a, b, c]"
    | a b c d r where "t = a # b # c # d # r"
    using assms by (cases t rule: list.exhaust[case_product list.exhaust, case_product list.exhaust, case_product list.exhaust]; cases t; simp; metis list.exhaust)
  then show ?thesis
  proof cases
    case 1
    then show ?thesis using b by (simp add: DecodeRuneInString_def Let_def)
  next
    case 2
    then show ?thesis using b by (simp add: DecodeRuneInString_def Let_def)
  next
    case 3
    then show ?thesis using b by (simp add: DecodeRuneInString_def Let_def)
  next
    case 4
    then show ?thesis using b by (simp add: DecodeRuneInString_def Let_def)
  qed
qed

text \<open>A space after the text does not change what \<open>TrimSpace\<close> returns: a space
  never completes an encoding that was cut short.\<close>

lemma IsSpace_32: "IsSpace 32" by (simp add: IsSpace_def)

lemma Decode_space: "DecodeRuneInString '' '' = (32, 1)"
  by (simp add: DecodeRuneInString_def)

lemma indexFunc_range:
  "i \<le> length s \<Longrightarrow> indexFunc f s i truth = - 1 \<or>
     (0 \<le> indexFunc f s i truth \<and> nat (indexFunc f s i truth) < length s)"
proof (induction f s i truth rule: indexFunc.induct)
  case (1 f s i truth)
  show ?case
  proof (cases "i < length s")
    case True
    let ?r = "fst (DecodeRuneInString (drop i s))"
    let ?w = "snd (DecodeRuneInString (drop i s))"
    show ?thesis
    proof (cases "f ?r = truth")
      case t: True
      then have "indexFunc f s i truth = int i" using True by (subst indexFunc.simps) (simp add: Let_def)
      then show ?thesis using True by simp
    next
      case f: False
      then have e: "indexFunc f s i truth = indexFunc f s (i + ?w) truth"
        using True by (subst indexFunc.simps) (simp add: Let_def)
      have "?w \<le> length (drop i s)" by (rule DecodeRune_size_le)
      then have "i + ?w \<le> length s" using True by simp
      from 1(1)[OF True refl refl f this] show ?thesis unfolding e .
    qed
  next
    case False
    then have "indexFunc f s i truth = - 1" by (subst indexFunc.simps) simp
    then show ?thesis by simp
  qed
qed

lemma indexFunc_snoc_space:
  "i \<le> length s \<Longrightarrow>
   indexFunc IsSpace (s @ '' '') i False = indexFunc IsSpace s i False"
proof (induction "IsSpace" s i False rule: indexFunc.induct)
  case (1 s i)
  show ?case
  proof (cases "i < length s")
    case True
    let ?r = "fst (DecodeRuneInString (drop i s))"
    let ?w = "snd (DecodeRuneInString (drop i s))"
    have d: "DecodeRuneInString (drop i (s @ '' '')) = DecodeRuneInString (drop i s)"
      using True DecodeRune_snoc_space[of "drop i s"] by simp
    have il: "i < length (s @ '' '')" using True by simp
    show ?thesis
    proof (cases "IsSpace ?r = False")
      case t: True
      then have "indexFunc IsSpace s i False = int i"
        using True by (subst indexFunc.simps) (simp add: Let_def)
      moreover have "indexFunc IsSpace (s @ '' '') i False = int i"
        using t il True by (subst indexFunc.simps) (simp add: Let_def DecodeRune_snoc_space)
      ultimately show ?thesis by simp
    next
      case f: False
      then have e: "indexFunc IsSpace s i False = indexFunc IsSpace s (i + ?w) False"
        using True by (subst indexFunc.simps) (simp add: Let_def)
      have e': "indexFunc IsSpace (s @ '' '') i False = indexFunc IsSpace (s @ '' '') (i + ?w) False"
        using f il True by (subst indexFunc.simps) (simp add: Let_def DecodeRune_snoc_space)
      have "?w \<le> length (drop i s)" by (rule DecodeRune_size_le)
      then have "i + ?w \<le> length s" using True by simp
      from 1(1)[OF True refl refl f this] show ?thesis unfolding e e' .
    qed
  next
    case False
    then have i: "i = length s" using 1(2) by simp
    have a: "indexFunc IsSpace s i False = - 1" using False by (subst indexFunc.simps) simp
    have b: "indexFunc IsSpace (s @ '' '') (Suc (length s)) False = - 1"
      by (subst indexFunc.simps) simp
    have "indexFunc IsSpace (s @ '' '') i False = - 1"
      unfolding i by (subst indexFunc.simps) (simp add: Decode_space IsSpace_32 b)
    then show ?thesis using a by simp
  qed
qed

lemma TrimLeftFunc_snoc_space:
  "TrimLeftFunc IsSpace (s @ '' '') =
     (if indexFunc IsSpace s 0 False = - 1 then [] else TrimLeftFunc IsSpace s @ '' '')"
proof -
  have e: "indexFunc IsSpace (s @ '' '') 0 False = indexFunc IsSpace s 0 False"
    by (rule indexFunc_snoc_space) simp
  have r: "indexFunc IsSpace s 0 False = - 1 \<or>
           (0 \<le> indexFunc IsSpace s 0 False \<and> nat (indexFunc IsSpace s 0 False) < length s)"
    by (rule indexFunc_range) simp
  show ?thesis unfolding TrimLeftFunc_def e Let_def using r by auto
qed

lemma DecodeLast_snoc_space: "DecodeLastRuneInString (u @ '' '') = (32, 1)"
  by (simp add: DecodeLastRuneInString_def Let_def)

lemma lastIndexFunc_snoc_space:
  "lastIndexFunc IsSpace (u @ '' '') False = lastIndexFunc IsSpace u False"
  by (subst lastIndexFunc.simps) (simp add: DecodeLast_snoc_space IsSpace_32)

lemma lastIndexFunc_range:
  "lastIndexFunc f t truth = - 1 \<or>
     (0 \<le> lastIndexFunc f t truth \<and> nat (lastIndexFunc f t truth) < length t)"
proof (induction f t truth rule: lastIndexFunc.induct)
  case (1 f t truth)
  show ?case
  proof (cases "length t > 0")
    case True
    let ?r = "fst (DecodeLastRuneInString t)"
    let ?w = "snd (DecodeLastRuneInString t)"
    have w: "1 \<le> ?w" "?w \<le> length t"
      using DecodeLastRune_size[of t] DecodeLastRune_size_le[of t] True by auto
    show ?thesis
    proof (cases "f ?r = truth")
      case t: True
      then have "lastIndexFunc f t truth = int (length t - ?w)"
        using True by (subst lastIndexFunc.simps) (simp add: Let_def)
      then show ?thesis using w by simp
    next
      case f: False
      then have e: "lastIndexFunc f t truth = lastIndexFunc f (take (length t - ?w) t) truth"
        using True by (subst lastIndexFunc.simps) (simp add: Let_def)
      from 1(1)[OF True refl refl f] show ?thesis unfolding e by auto
    qed
  next
    case False
    then have "lastIndexFunc f t truth = - 1" by (subst lastIndexFunc.simps) simp
    then show ?thesis by simp
  qed
qed

lemma TrimRightFunc_snoc_space: "TrimRightFunc IsSpace (u @ '' '') = TrimRightFunc IsSpace u"
proof -
  define i where "i = lastIndexFunc IsSpace u False"
  have r: "i = - 1 \<or> (0 \<le> i \<and> nat i < length u)"
    unfolding i_def by (rule lastIndexFunc_range)
  show ?thesis
  proof (cases "i = - 1")
    case True
    then show ?thesis
      unfolding TrimRightFunc_def lastIndexFunc_snoc_space i_def[symmetric] Let_def by simp
  next
    case False
    then have i: "0 \<le> i" "nat i < length u" using r by auto
    have n: "(u @ '' '') ! nat i = u ! nat i" using i by (simp add: nth_append)
    have d: "DecodeRuneInString (drop (nat i) (u @ '' '')) = DecodeRuneInString (drop (nat i) u)"
      using i DecodeRune_snoc_space[of "drop (nat i) u"] by simp
    have "snd (DecodeRuneInString (drop (nat i) u)) \<le> length (drop (nat i) u)"
      by (rule DecodeRune_size_le)
    then have w: "nat i + snd (DecodeRuneInString (drop (nat i) u)) \<le> length u" using i by simp
    have j: "nat (i + 1) \<le> length u" using i by linarith
    show ?thesis
      unfolding TrimRightFunc_def lastIndexFunc_snoc_space i_def[symmetric] Let_def n d
      using w j by simp
  qed
qed

lemma TrimFunc_snoc_space: "TrimFunc IsSpace (s @ '' '') = TrimFunc IsSpace s"
proof (cases "indexFunc IsSpace s 0 False = - 1")
  case True
  then have "TrimLeftFunc IsSpace s = []" by (simp add: TrimLeftFunc_def)
  then show ?thesis using True by (simp add: TrimFunc_def TrimLeftFunc_snoc_space)
next
  case False
  then show ?thesis
    by (simp add: TrimFunc_def TrimLeftFunc_snoc_space TrimRightFunc_snoc_space)
qed

lemma TrimSpace_snoc_space: "TrimSpace (s @ '' '') = TrimSpace s"
  unfolding TrimSpace_def
proof (induction s)
  case Nil
  show ?case by (simp add: asciiSpace_def)
next
  case (Cons c cs)
  have a: "spaceStop ((c # cs) @ '' '') = spaceStop (c # cs)"
    using spaceStop_snoc[of "c # cs" "CHR '' ''"] by (simp add: asciiSpace_def)
  have b: "TrimFunc IsSpace ((c # cs) @ '' '') = TrimFunc IsSpace (c # cs)"
    by (rule TrimFunc_snoc_space)
  show ?case using Cons.IH a b by simp
qed

section \<open>The log does not influence the results\<close>

lemma elog_refl: "elog w w" by (auto simp: elog_def intro: exI[of _ "logs w"])

lemma elog_trans: "elog w w1 \<Longrightarrow> elog w1 w2 \<Longrightarrow> elog w w2" by (auto simp: elog_def)

lemma elog_sym: "elog w w1 \<Longrightarrow> elog w1 w" by (auto simp: elog_def intro: exI[of _ "logs w"])

lemma elog_slog: "elog w (slog lvl m a w)" by (auto simp: elog_def slog_def)

lemma elog_slog2: "elog w w' \<Longrightarrow> elog (slog lvl m a w) (slog lvl' m' a' w')"
  by (auto simp: elog_def slog_def)

lemma elog_fields:
  "elog w w' \<Longrightarrow> now_year w' = now_year w \<and> unicode w' = unicode w \<and> books w' = books w \<and>
   files w' = files w \<and> create_fails w' = create_fails w \<and> stdout w' = stdout w"
  by (auto simp: elog_def)

lemma decodeLoop_elog:
  "elog w w' \<Longrightarrow>
   fst (decodeLoop fp rs n cs w') = fst (decodeLoop fp rs n cs w) \<and>
   fst (snd (decodeLoop fp rs n cs w')) = fst (snd (decodeLoop fp rs n cs w)) \<and>
   elog w (snd (snd (decodeLoop fp rs n cs w')))"
proof (induction rs arbitrary: n cs w w')
  case Nil
  then show ?case by simp
next
  case (Cons r rs)
  show ?case
  proof (cases r)
    case (DecodeCard vc)
    have ny: "now_year w' = now_year w" "unicode w' = unicode w"
      using Cons.prems elog_fields by blast+
    let ?a = "[(''name'', LStr (Name (contactOfCard (unicode w) (now_year w) fp vc))),
               (''file'', LStr fp)]"
    have e2: "elog (slog Debug ''Loaded contact'' ?a w) (slog Debug ''Loaded contact'' ?a w')"
      using Cons.prems by (rule elog_slog2)
    from Cons.IH[OF e2] have
      "fst (decodeLoop fp (r # rs) n cs w') = fst (decodeLoop fp (r # rs) n cs w)"
      "fst (snd (decodeLoop fp (r # rs) n cs w')) = fst (snd (decodeLoop fp (r # rs) n cs w))"
      "elog (slog Debug ''Loaded contact'' ?a w) (snd (snd (decodeLoop fp (r # rs) n cs w')))"
      using DecodeCard ny by (simp_all add: Let_def)
    then show ?thesis using elog_trans[OF elog_slog] by blast
  next
    case (DecodeErr e)
    then show ?thesis using Cons.prems by simp
  qed
qed

lemma processVCardFile_elog:
  "elog w w' \<Longrightarrow>
   fst (processVCardFile fp f cs w') = fst (processVCardFile fp f cs w) \<and>
   fst (snd (processVCardFile fp f cs w')) = fst (snd (processVCardFile fp f cs w)) \<and>
   elog w (snd (snd (processVCardFile fp f cs w')))"
  by (cases f) (simp_all add: processVCardFile_def decodeLoop_elog)

lemma walkFn_elog:
  assumes "elog w w'"
  shows "fst (walkFn ev (s, w')) = fst (walkFn ev (s, w)) \<and> elog w (snd (walkFn ev (s, w')))"
proof (cases ev)
  case (WalkError p e)
  then show ?thesis using assms elog_trans[OF assms elog_slog] by (simp add: walkFn_def)
next
  case (WalkDirectory p)
  then show ?thesis using assms by (simp add: walkFn_def)
next
  case (WalkFile p f)
  have u: "unicode w' = unicode w" using assms elog_fields by blast
  show ?thesis
  proof (cases "HasSuffix (ToLower (unicode w) p) ''.vcf''")
    case False
    then show ?thesis using WalkFile assms u elog_trans[OF assms elog_slog] by (simp add: walkFn_def)
  next
    case True
    let ?w1 = "slog Debug ''Processing vCard file'' [(''file'', LStr p)] w"
    let ?w1' = "slog Debug ''Processing vCard file'' [(''file'', LStr p)] w'"
    let ?cs = "ws_contacts s"
    have e1: "elog ?w1 ?w1'" using assms by (rule elog_slog2)
    note P = processVCardFile_elog[OF e1, of p f ?cs]
    obtain r cs2 w2 where R: "processVCardFile p f ?cs ?w1 = (r, cs2, w2)" by (cases "processVCardFile p f ?cs ?w1") auto
    obtain r' cs2' w2' where R': "processVCardFile p f ?cs ?w1' = (r', cs2', w2')" by (cases "processVCardFile p f ?cs ?w1'") auto
    from P R R' have eq: "r' = r" "cs2' = cs2" and el: "elog ?w1 w2'" by simp_all
    have el2: "elog w w2'" using elog_trans[OF elog_slog el] .
    show ?thesis using WalkFile True R R' eq el2 u elog_trans[OF el2 elog_slog]
      by (cases r) (simp_all add: walkFn_def Let_def)
  qed
qed

lemma walkDir_elog:
  "elog w w' \<Longrightarrow>
   fst (walkDir evs (s, w')) = fst (walkDir evs (s, w)) \<and> elog w (snd (walkDir evs (s, w')))"
proof (induction evs arbitrary: s w w')
  case Nil
  then show ?case by (simp add: walkDir_def)
next
  case (Cons ev evs)
  obtain s1 w1 where A: "walkFn ev (s, w) = (s1, w1)" by (cases "walkFn ev (s, w)") auto
  obtain s1' w1' where A': "walkFn ev (s, w') = (s1', w1')" by (cases "walkFn ev (s, w')") auto
  from walkFn_elog[OF Cons.prems, of ev s] A A' have eq: "s1' = s1" and e1: "elog w w1'" by simp_all
  from walkFn_elog[OF elog_refl, of ev s w] A have e0: "elog w w1" by simp
  have e: "elog w1 w1'" using elog_trans[OF elog_sym[OF e0] e1] .
  from Cons.IH[OF e, of s1] have
    "fst (walkDir evs (s1, w1')) = fst (walkDir evs (s1, w1))" "elog w1 (snd (walkDir evs (s1, w1')))" by simp_all
  then show ?case using A A' eq elog_trans[OF e0] by (simp add: walkDir_def)
qed

lemma loadContactsFromPath_elog:
  assumes "elog w w'"
  shows "fst (loadContactsFromPath p w') = fst (loadContactsFromPath p w) \<and>
         elog w (snd (loadContactsFromPath p w'))"
proof -
  let ?w = "slog Debug ''Loading contacts from path'' [(''path'', LStr p)] w"
  let ?w' = "slog Debug ''Loading contacts from path'' [(''path'', LStr p)] w'"
  have e: "elog ?w ?w'" using assms by (rule elog_slog2)
  have b: "books ?w' = books ?w" using elog_fields[OF e] by simp
  have e0: "elog w ?w'" using elog_trans[OF elog_slog e] .
  show ?thesis
  proof (cases "books ?w p")
    case NotExist
    then show ?thesis using b e0 by (simp add: loadContactsFromPath_def Let_def)
  next
    case (Walk evs)
    let ?s0 = "\<lparr>ws_contacts = [], vcfCount = 0, processedCount = 0, errorCount = 0\<rparr>"
    obtain s1 w1 where A: "walkDir evs (?s0, ?w) = (s1, w1)" by (cases "walkDir evs (?s0, ?w)") auto
    obtain s1' w1' where A': "walkDir evs (?s0, ?w') = (s1', w1')" by (cases "walkDir evs (?s0, ?w')") auto
    from walkDir_elog[OF e, of evs ?s0] A A' have eq: "s1' = s1" and e1: "elog ?w w1'" by simp_all
    have e2: "elog w w1'" using elog_trans[OF elog_slog e1] .
    have e3: "\<And>lvl m a. elog w (slog lvl m a w1')" using elog_trans[OF e2 elog_slog] .
    show ?thesis using Walk b A A' eq e3
      by (simp add: loadContactsFromPath_def Let_def)
  qed
qed

lemma loadLoop_elog:
  "elog w w' \<Longrightarrow>
   fst (loadLoop paths cs es w') = cs @ collected w paths \<and>
   fst (snd (loadLoop paths cs es w')) = es @ failures w paths \<and>
   elog w (snd (snd (loadLoop paths cs es w')))"
proof (induction paths arbitrary: cs es w')
  case Nil
  then show ?case by (simp add: collected_def failures_def)
next
  case (Cons p paths)
  obtain r w1 where A: "loadContactsFromPath p w' = (r, w1)" by (cases "loadContactsFromPath p w'") auto
  from loadContactsFromPath_elog[OF Cons.prems, of p] A
  have r: "pathResult w p = r" and e: "elog w w1" by (simp_all add: pathResult_def)
  show ?case
  proof (cases r)
    case (Inl err)
    with Cons.IH[OF e, of cs "es @ [(p, err)]"] A r show ?thesis
      by (simp add: collected_def failures_def)
  next
    case (Inr pcs)
    with Cons.IH[OF e, of "cs @ pcs" es] A r show ?thesis
      by (simp add: collected_def failures_def)
  qed
qed

lemma LoadContacts_result:
  "fst (LoadContacts paths w) =
     (if failures w paths \<noteq> [] \<and> collected w paths = []
      then Inl (AllAddressBooksFailed (failures w paths))
      else Inr (collected w paths))"
proof -
  obtain cs es w1 where A: "loadLoop paths [] [] w = (cs, es, w1)"
    by (cases "loadLoop paths [] [] w") auto
  from loadLoop_elog[OF elog_refl, of paths "[]" "[]" w] A
  have "cs = collected w paths" "es = failures w paths" by simp_all
  then show ?thesis using A by (simp add: LoadContacts_def Let_def)
qed

lemma LoadContacts_elog: "elog w (snd (LoadContacts paths w))"
proof -
  obtain cs es w1 where A: "loadLoop paths [] [] w = (cs, es, w1)"
    by (cases "loadLoop paths [] [] w") auto
  from loadLoop_elog[OF elog_refl, of paths "[]" "[]" w] A have e: "elog w w1" by simp
  have f: "\<And>es w2. elog w w2 \<Longrightarrow> elog w (warnAll es w2)"
  proof -
    fix es w2 show "elog w w2 \<Longrightarrow> elog w (warnAll es w2)"
      unfolding warnAll_def
      by (induction es arbitrary: w2) (auto intro: elog_trans[OF _ elog_slog])
  qed
  show ?thesis using A e f[OF e] elog_trans[OF e elog_slog] elog_trans[OF f[OF e] elog_slog]
    by (simp add: LoadContacts_def Let_def)
qed

lemma decodeLoop_prefix: "\<exists>ys. fst (snd (decodeLoop fp rs n cs w)) = cs @ ys"
proof (induction rs arbitrary: n cs w)
  case Nil
  then show ?case by simp
next
  case (Cons r rs)
  show ?case
  proof (cases r)
    case (DecodeCard vc)
    then show ?thesis using Cons.IH by (simp add: Let_def) (metis append.assoc)
  next
    case (DecodeErr e)
    then show ?thesis by simp
  qed
qed

lemma decodeLoop_ok_nonempty:
  "fst (decodeLoop fp rs n cs w) = None \<Longrightarrow> (0 < n \<longrightarrow> cs \<noteq> []) \<Longrightarrow>
   fst (snd (decodeLoop fp rs n cs w)) \<noteq> []"
proof (induction rs arbitrary: n cs w)
  case Nil
  then show ?case by (simp split: if_splits)
next
  case (Cons r rs)
  show ?case
  proof (cases r)
    case (DecodeCard vc)
    then show ?thesis using Cons.IH Cons.prems by (simp add: Let_def)
  next
    case (DecodeErr e)
    then show ?thesis using Cons.prems by simp
  qed
qed

lemma walkFn_inv: "walk_inv s \<Longrightarrow> walk_inv (fst (walkFn ev (s, w)))"
proof (cases ev)
  case (WalkFile p f)
  assume I: "walk_inv s"
  show ?thesis
  proof (cases "HasSuffix (ToLower (unicode w) p) ''.vcf''")
    case False
    then show ?thesis using WalkFile I by (simp add: walkFn_def)
  next
    case True
    let ?w1 = "slog Debug ''Processing vCard file'' [(''file'', LStr p)] w"
    obtain r cs2 w2 where R: "processVCardFile p f (ws_contacts s) ?w1 = (r, cs2, w2)"
      by (cases "processVCardFile p f (ws_contacts s) ?w1") auto
    show ?thesis
    proof (cases r)
      case None
      have "cs2 \<noteq> []"
      proof (cases f)
        case (OpenFails e)
        then show ?thesis using R None by (simp add: processVCardFile_def)
      next
        case (Opens rs)
        then show ?thesis using R None decodeLoop_ok_nonempty[of p rs 0 "ws_contacts s" ?w1]
          by (simp add: processVCardFile_def)
      qed
      then show ?thesis using WalkFile True R None I by (simp add: walkFn_def Let_def walk_inv_def)
    next
      case (Some err)
      have "\<exists>ys. cs2 = ws_contacts s @ ys"
      proof (cases f)
        case (OpenFails e)
        then show ?thesis using R by (simp add: processVCardFile_def)
      next
        case (Opens rs)
        then show ?thesis using R decodeLoop_prefix[of p rs 0 "ws_contacts s" ?w1]
          by (simp add: processVCardFile_def)
      qed
      then show ?thesis using WalkFile True R Some I
        by (auto simp add: walkFn_def Let_def walk_inv_def)
    qed
  qed
qed (simp_all add: walkFn_def)

lemma walkDir_inv: "walk_inv s \<Longrightarrow> walk_inv (fst (walkDir evs (s, w)))"
proof (induction evs arbitrary: s w)
  case Nil
  then show ?case by (simp add: walkDir_def)
next
  case (Cons ev evs)
  obtain s1 w1 where A: "walkFn ev (s, w) = (s1, w1)" by (cases "walkFn ev (s, w)") auto
  with walkFn_inv[OF Cons.prems, of ev w] have "walk_inv s1" by simp
  from Cons.IH[OF this, of w1] A show ?case by (simp add: walkDir_def)
qed

lemma pathResult_nonempty: "pathResult w p = Inr cs \<Longrightarrow> cs \<noteq> []"
proof -
  assume A: "pathResult w p = Inr cs"
  let ?w = "slog Debug ''Loading contacts from path'' [(''path'', LStr p)] w"
  let ?s0 = "\<lparr>ws_contacts = [], vcfCount = 0, processedCount = 0, errorCount = 0\<rparr>"
  show ?thesis
  proof (cases "books ?w p")
    case NotExist
    then show ?thesis using A by (simp add: pathResult_def loadContactsFromPath_def Let_def)
  next
    case (Walk evs)
    obtain s1 w1 where W: "walkDir evs (?s0, ?w) = (s1, w1)" by (cases "walkDir evs (?s0, ?w)") auto
    have "walk_inv ?s0" by (simp add: walk_inv_def)
    from walkDir_inv[OF this, of evs ?w] W have I: "walk_inv s1" by simp
    from A Walk W have "vcfCount s1 \<noteq> 0" "\<not> (processedCount s1 = 0 \<and> errorCount s1 > 0)" "cs = ws_contacts s1"
      by (auto simp add: pathResult_def loadContactsFromPath_def Let_def split: if_splits)
    then show ?thesis using I by (auto simp: walk_inv_def)
  qed
qed


lemma FileName_contactOfCard: "FileName (contactOfCard u cy fp vc) = fp"
  by (simp add: contactOfCard_def Let_def split: option.splits)

lemma example_suffix_a: "HasSuffix (ToLower u ''book/a.vcf'') ''.vcf''"
  by (simp add: HasSuffix_def ToLower_def isASCII_def lower_byte_def)

lemma example_suffix_b: "HasSuffix (ToLower u ''book/b.vcf'') ''.vcf''"
  by (simp add: HasSuffix_def ToLower_def isASCII_def lower_byte_def)

lemmas example_load_defs =
  collected_def failures_def pathResult_def loadContactsFromPath_def exampleWorld_def
  slog_def Let_def walkDir_def walkFn_def example_suffix_a example_suffix_b
  processVCardFile_def

section \<open>Loading contacts: degraded mode\<close>

text \<open>
  Claim C1. \<open>LoadContacts\<close> fails only if every path failed and no contact was
  collected; when at least one contact was collected it succeeds with the contacts of
  the paths that loaded, concatenated in path order, whatever failed elsewhere. And
  a non-empty list of paths that all fail gives the aggregated error.
\<close>

theorem LoadContacts_degraded_mode:
  "(\<forall>e. fst (LoadContacts paths w) = Inl e \<longrightarrow>
      (\<forall>p \<in> set paths. isl (pathResult w p)) \<and> collected w paths = []) \<and>
   (collected w paths \<noteq> [] \<longrightarrow> fst (LoadContacts paths w) = Inr (collected w paths)) \<and>
   (paths \<noteq> [] \<and> (\<forall>p \<in> set paths. isl (pathResult w p)) \<longrightarrow>
      fst (LoadContacts paths w) = Inl (AllAddressBooksFailed (failures w paths)))"
proof -
  have c: "collected w paths = [] \<Longrightarrow> \<forall>p \<in> set paths. isl (pathResult w p)"
  proof
    fix p assume "collected w paths = []" "p \<in> set paths"
    then have "(case pathResult w p of Inl e \<Rightarrow> [] | Inr cs \<Rightarrow> cs) = []"
      by (auto simp: collected_def)
    then show "isl (pathResult w p)" using pathResult_nonempty[of w p]
      by (cases "pathResult w p") auto
  qed
  have f: "paths \<noteq> [] \<Longrightarrow> \<forall>p \<in> set paths. isl (pathResult w p) \<Longrightarrow>
           failures w paths \<noteq> [] \<and> collected w paths = []"
  proof -
    assume ne: "paths \<noteq> []" and al: "\<forall>p \<in> set paths. isl (pathResult w p)"
    then obtain p ps where ps: "paths = p # ps" by (cases paths) auto
    with al obtain e where "pathResult w p = Inl e" by (cases "pathResult w p") auto
    then have "failures w paths \<noteq> []" using ps by (simp add: failures_def)
    moreover have "collected w paths = []" using al
      by (auto simp: collected_def isl_def)
    ultimately show ?thesis by simp
  qed
  show ?thesis using c f by (auto simp: LoadContacts_result split: if_splits)
qed

theorem LoadContacts_degraded_mode_witness:
  "fst (LoadContacts [''missing'', ''book''] exampleWorld)
     = Inr (collected exampleWorld [''missing'', ''book'']) \<and>
   map FileName (collected exampleWorld [''missing'', ''book''])
     = [''book/a.vcf'', ''book/b.vcf''] \<and>
   fst (LoadContacts [''missing''] exampleWorld)
     = Inl (AllAddressBooksFailed [(''missing'', PathDoesNotExist ''missing'')]) \<and>
   isl (pathResult exampleWorld ''missing'')"
proof -
  have a: "map FileName (collected exampleWorld [''missing'', ''book''])
             = [''book/a.vcf'', ''book/b.vcf'']"
    by (simp add: example_load_defs FileName_contactOfCard)
  have b: "failures exampleWorld [''missing''] = [(''missing'', PathDoesNotExist ''missing'')]"
    by (simp add: example_load_defs)
  have c: "isl (pathResult exampleWorld ''missing'')"
    by (simp add: example_load_defs)
  from a have a': "collected exampleWorld [''missing'', ''book''] \<noteq> []" by auto
  note T1 = LoadContacts_degraded_mode[of "[''missing'', ''book'']" exampleWorld]
  note T2 = LoadContacts_degraded_mode[of "[''missing'']" exampleWorld]
  have 1: "fst (LoadContacts [''missing'', ''book''] exampleWorld)
     = Inr (collected exampleWorld [''missing'', ''book''])"
    by (rule mp[OF conjunct1[OF conjunct2[OF T1]] a'])
  have "[''missing''] \<noteq> [] \<and> (\<forall>p \<in> set [''missing'']. isl (pathResult exampleWorld p))"
    using c by simp
  from mp[OF conjunct2[OF conjunct2[OF T2]] this] b
  have 2: "fst (LoadContacts [''missing''] exampleWorld)
     = Inl (AllAddressBooksFailed [(''missing'', PathDoesNotExist ''missing'')])" by simp
  show ?thesis using 1 a 2 c by blast
qed

text \<open>
  Claim C10. With no path at all, \<open>LoadContacts\<close> succeeds with the empty list of
  contacts; it does not report that all address books failed.
\<close>

theorem LoadContacts_no_paths: "fst (LoadContacts [] w) = Inr []"
  by (simp add: LoadContacts_def Let_def)

theorem LoadContacts_no_paths_witness: "fst (LoadContacts [] exampleWorld) = Inr []"
  using LoadContacts_no_paths[of exampleWorld] by simp

section \<open>Sort keys\<close>

text \<open>
  Claim C5. \<open>extractSortKey\<close> is the lowercased family name when there is one; else
  the lowercased organization when organization and formatted name are both present; else
  the lowercased formatted name when present; else empty. So an organization without
  a formatted name and family name gives the empty key, and a family name wins over an
  organization. Lowercasing is \<open>strings.ToLower\<close>, for any case tables.
\<close>

theorem extractSortKey_precedence:
  "(FamilyName c \<noteq> [] \<longrightarrow> extractSortKey u c = ToLower u (FamilyName c)) \<and>
   (FamilyName c = [] \<and> Organization c \<noteq> [] \<and> Name c \<noteq> [] \<longrightarrow>
      extractSortKey u c = ToLower u (Organization c)) \<and>
   (FamilyName c = [] \<and> Organization c = [] \<and> Name c \<noteq> [] \<longrightarrow>
      extractSortKey u c = ToLower u (Name c)) \<and>
   (FamilyName c = [] \<and> Name c = [] \<longrightarrow> extractSortKey u c = [])"
  by (simp add: extractSortKey_def)

theorem extractSortKey_precedence_witness:
  "extractSortKey latin1Tables (emptyContact\<lparr>FamilyName := ''Doe'', Organization := ''Acme''\<rparr>)
     = ''doe'' \<and>
   extractSortKey latin1Tables
     (emptyContact\<lparr>Organization := ''Acme Corporation'', Name := ''Acme Corp''\<rparr>)
     = ''acme corporation'' \<and>
   extractSortKey latin1Tables (emptyContact\<lparr>Name := ''Cher''\<rparr>) = ''cher'' \<and>
   extractSortKey latin1Tables (emptyContact\<lparr>Organization := ''Acme''\<rparr>) = [] \<and>
   extractSortKey latin1Tables
     (emptyContact\<lparr>FamilyName := [CHR 0xC3, CHR 0x89, CHR ''L'', CHR ''A'', CHR ''N'']\<rparr>)
     = [CHR 0xC3, CHR 0xA9, CHR ''l'', CHR ''a'', CHR ''n'']"
proof -
  have l: "ToLower latin1Tables ''Doe'' = ''doe''"
     "ToLower latin1Tables ''Acme Corporation'' = ''acme corporation''"
     "ToLower latin1Tables ''Cher'' = ''cher''"
    by (simp_all add: ToLower_def isASCII_def lower_byte_def char_of_eq_iff)
  have e: "ToLower latin1Tables [CHR 0xC3, CHR 0x89, CHR ''L'', CHR ''A'', CHR ''N'']
             = [CHR 0xC3, CHR 0xA9, CHR ''l'', CHR ''a'', CHR ''n'']"
    by code_simp
  show ?thesis
    using extractSortKey_precedence[where u = latin1Tables
            and c = "emptyContact\<lparr>FamilyName := ''Doe'', Organization := ''Acme''\<rparr>"]
      extractSortKey_precedence[where u = latin1Tables
            and c = "emptyContact\<lparr>Organization := ''Acme Corporation'', Name := ''Acme Corp''\<rparr>"]
      extractSortKey_precedence[where u = latin1Tables and c = "emptyContact\<lparr>Name := ''Cher''\<rparr>"]
      extractSortKey_precedence[where u = latin1Tables
            and c = "emptyContact\<lparr>Organization := ''Acme''\<rparr>"]
      extractSortKey_precedence[where u = latin1Tables
            and c = "emptyContact\<lparr>FamilyName := [CHR 0xC3, CHR 0x89, CHR ''L'', CHR ''A'', CHR ''N'']\<rparr>"]
    by (simp add: emptyContact_def l e)
qed

section \<open>Files with a decode error\<close>

text \<open>
  Claim C2 says that a file whose decoding produces a decode error contributes no
  contact. \<open>processVCardFile\<close> appends to the caller's slice as it decodes, and the
  blocks decoded before the error stay there: in the example the file \<open>book/b.vcf\<close>
  fails at its second block, and its first block is among the contacts of the path.
\<close>

theorem decode_error_file_still_contributes:
  "fst (processVCardFile ''book/b.vcf''
          (Opens [DecodeCard exampleCard, DecodeErr ''vcard: no END field found''])
          [] exampleWorld)
     = Some (FailedToDecode ''vcard: no END field found'') \<and>
   map FileName (case pathResult exampleWorld ''book'' of Inl e \<Rightarrow> [] | Inr cs \<Rightarrow> cs)
     = [''book/a.vcf'', ''book/b.vcf'']"
  by (simp add: example_load_defs FileName_contactOfCard)

section \<open>Filtering\<close>

lemma HasPrefix_iff: "HasPrefix s p \<longleftrightarrow> (\<exists>v. s = p @ v)"
  unfolding HasPrefix_def
  by (metis append_eq_conv_conj append_take_drop_id)

lemma Contains_iff: "Contains s sub \<longleftrightarrow> (\<exists>u v. s = u @ sub @ v)"
proof (induction s)
  case Nil
  then show ?case by auto
next
  case (Cons c cs)
  have "(\<exists>u v. c # cs = u @ sub @ v) \<longleftrightarrow> (\<exists>v. c # cs = sub @ v) \<or> (\<exists>u v. cs = u @ sub @ v)"
  proof
    assume "\<exists>u v. c # cs = u @ sub @ v"
    then obtain u v where uv: "c # cs = u @ sub @ v" by blast
    show "(\<exists>v. c # cs = sub @ v) \<or> (\<exists>u v. cs = u @ sub @ v)"
    proof (cases u)
      case Nil
      then show ?thesis using uv by auto
    next
      case (Cons a u')
      then show ?thesis using uv by auto
    qed
  next
    assume "(\<exists>v. c # cs = sub @ v) \<or> (\<exists>u v. cs = u @ sub @ v)"
    then show "\<exists>u v. c # cs = u @ sub @ v"
    proof
      assume "\<exists>v. c # cs = sub @ v"
      then show ?thesis by (metis append_Nil)
    next
      assume "\<exists>u v. cs = u @ sub @ v"
      then show ?thesis by (metis append_Cons)
    qed
  qed
  then show ?case using Cons.IH by (simp add: HasPrefix_iff)
qed

lemma concat_spaced: "ps \<noteq> [] \<Longrightarrow> concat (map (\<lambda>p. p @ '' '') ps) = Join ps '' '' @ '' ''"
  by (induction ps "'' ''" rule: Join.induct) simp_all

lemma TrimSpace_spaced: "TrimSpace (concat (map (\<lambda>p. p @ '' '') ps)) = TrimSpace (Join ps '' '')"
proof (cases ps)
  case Nil
  then show ?thesis by simp
next
  case (Cons p ps')
  then show ?thesis using concat_spaced[of ps] TrimSpace_snoc_space by simp
qed

lemma spacedLower_append: "spacedLower u (ps @ qs) = spacedLower u ps @ spacedLower u qs"
  by (simp add: spacedLower_def)

lemma spacedLower_concat: "spacedLower u (concat pss) = concat (map (spacedLower u) pss)"
  by (induction pss) (simp_all add: spacedLower_append, simp add: spacedLower_def)

lemma emailSearchText_pieces: "emailSearchText u e = spacedLower u (emailPieces e)"
  by (simp add: emailSearchText_def emailPieces_def spacedLower_def)

lemma phoneSearchText_pieces: "phoneSearchText u e = spacedLower u (phonePieces e)"
  by (simp add: phoneSearchText_def phonePieces_def spacedLower_def)

lemma spacedLower_single: "spacedLower u [p] = ToLower u p @ '' ''" "spacedLower u [] = []"
  by (simp_all add: spacedLower_def)

lemma buildContactSearchText_blob: "buildContactSearchText u c = searchBlob u c"
proof -
  have e: "concat (map (emailSearchText u) (Emails c))
             = spacedLower u (concat (map emailPieces (Emails c)))"
    by (simp add: spacedLower_concat comp_def emailSearchText_pieces[abs_def])
  have p: "concat (map (phoneSearchText u) (Phones c))
             = spacedLower u (concat (map phonePieces (Phones c)))"
    by (simp add: spacedLower_concat comp_def phoneSearchText_pieces[abs_def])
  have "(if Name c \<noteq> [] then ToLower u (Name c) @ '' '' else [])
        @ concat (map (emailSearchText u) (Emails c))
        @ concat (map (phoneSearchText u) (Phones c))
        @ (if Organization c \<noteq> [] then ToLower u (Organization c) @ '' '' else [])
        @ (if Note c \<noteq> [] then ToLower u (Note c) @ '' '' else [])
        @ (if Address c \<noteq> [] then ToLower u (Address c) @ '' '' else [])
      = spacedLower u (searchPieces c)"
    unfolding e p searchPieces_def spacedLower_append
    by (simp add: spacedLower_single)
  also have "\<dots> = concat (map (\<lambda>p. p @ '' '') (map (ToLower u) (searchPieces c)))"
    by (simp add: spacedLower_def comp_def)
  finally show ?thesis
    by (simp only: buildContactSearchText_def searchBlob_def TrimSpace_spaced)
qed

text \<open>
  Claim C6. An empty term list matches every contact. A non-empty term list matches
  exactly when the terms, joined by single spaces and lowercased, occur as one
  contiguous piece of the contact's search text; and the search text the program builds
  is the specification's: name, each email's value and type, each phone's value and
  type, organization, note and address, those present, lowercased, separated by single
  spaces, trimmed. Lowercasing and trimming are those of \<open>strings.ToLower\<close> and
  \<open>strings.TrimSpace\<close>, for any case tables.
\<close>

theorem matchesFilter_contiguous:
  "matchesFilter u c [] \<and>
   (terms \<noteq> [] \<longrightarrow>
      (matchesFilter u c terms \<longleftrightarrow>
         (\<exists>p q. searchBlob u c = p @ ToLower u (Join terms '' '') @ q))) \<and>
   buildContactSearchText u c = searchBlob u c"
  by (simp add: matchesFilter_def Contains_iff buildContactSearchText_blob)

theorem matchesFilter_contiguous_witness:
  "matchesFilter latin1Tables aliceBrown [''Alice'', ''BROWN''] \<and>
   searchBlob latin1Tables aliceBrown = ''alice brown ab@example.com work'' \<and>
   \<not> matchesFilter latin1Tables aliceBrown [''brown'', ''alice'']"
proof -
  have blob: "searchBlob latin1Tables aliceBrown = ''alice brown ab@example.com work''"
    by (simp add: searchBlob_def searchPieces_def emailPieces_def TrimSpace_ascii isASCII_def
          asciiSpace_def ToLower_def lower_byte_def char_of_eq_iff aliceBrown_def
          emptyContact_def)
  have t: "ToLower latin1Tables (Join [''Alice'', ''BROWN''] '' '') = ''alice brown''"
    by (simp add: ToLower_def isASCII_def lower_byte_def char_of_eq_iff)
  have "searchBlob latin1Tables aliceBrown
          = [] @ ToLower latin1Tables (Join [''Alice'', ''BROWN''] '' '') @ '' ab@example.com work''"
    unfolding blob t by simp
  then have e: "\<exists>p q. searchBlob latin1Tables aliceBrown
                  = p @ ToLower latin1Tables (Join [''Alice'', ''BROWN''] '' '') @ q"
    by blast
  note T = matchesFilter_contiguous[where u = latin1Tables and c = aliceBrown
             and terms = "[''Alice'', ''BROWN'']"]
  have m: "matchesFilter latin1Tables aliceBrown [''Alice'', ''BROWN'']"
    using conjunct1[OF conjunct2[OF T]] e by simp
  have b2: "buildContactSearchText latin1Tables aliceBrown = ''alice brown ab@example.com work''"
    using conjunct2[OF conjunct2[OF T]] blob by simp
  have n: "\<not> matchesFilter latin1Tables aliceBrown [''brown'', ''alice'']"
    by (simp add: matchesFilter_def b2 HasPrefix_def ToLower_def isASCII_def lower_byte_def)
  show ?thesis using m blob n by blast
qed

section \<open>Export with an unsupported format\<close>

lemma loadAndFilterContacts_elog: "elog w (snd (loadAndFilterContacts paths filt w))"
proof -
  obtain r w1 where A: "LoadContacts paths w = (r, w1)" by (cases "LoadContacts paths w") auto
  with LoadContacts_elog[of w paths] have "elog w w1" by simp
  then show ?thesis using A by (cases r) (simp_all add: loadAndFilterContacts_def)
qed

lemma example_book_loads:
  "fst (loadAndFilterContacts [''book''] [] exampleWorld) = Inr (collected exampleWorld [''book''])"
proof -
  have "map FileName (collected exampleWorld [''book'']) = [''book/a.vcf'', ''book/b.vcf'']"
    by (simp add: example_load_defs FileName_contactOfCard)
  then have "collected exampleWorld [''book''] \<noteq> []" by auto
  then have "fst (LoadContacts [''book''] exampleWorld) = Inr (collected exampleWorld [''book''])"
    by (simp add: LoadContacts_result)
  then show ?thesis
    by (cases "LoadContacts [''book''] exampleWorld") (simp add: loadAndFilterContacts_def)
qed

text \<open>
  Claim C7 says that an unsupported format is reported before any I/O, so that no
  output file is created. \<open>ExportContacts\<close> looks at the format last: in the example
  the file \<open>out.xml\<close> does not exist before the call and exists, empty, after it.
\<close>

theorem ExportContacts_unsupported_creates_file:
  "files exampleWorld ''out.xml'' = None \<and>
   fst (ExportContacts exampleEncoders [''book''] ''xml'' '','' ''out.xml'' [] exampleWorld)
     = Some (UnsupportedFormat ''xml'') \<and>
   files (snd (ExportContacts exampleEncoders [''book''] ''xml'' '','' ''out.xml'' [] exampleWorld))
     ''out.xml'' = Some []"
proof -
  obtain r w1 where A: "loadAndFilterContacts [''book''] [] exampleWorld = (r, w1)"
    by (cases "loadAndFilterContacts [''book''] [] exampleWorld") auto
  with loadAndFilterContacts_elog[of exampleWorld "[''book'']" "[]"] have "elog exampleWorld w1"
    by simp
  then have F: "files w1 = files exampleWorld" "create_fails w1 = create_fails exampleWorld"
    using elog_fields by blast+
  have r: "r = Inr (collected exampleWorld [''book''])" using example_book_loads A by simp
  have n: "files exampleWorld ''out.xml'' = None" "\<not> create_fails exampleWorld ''out.xml''"
    by (simp_all add: exampleWorld_def)
  show ?thesis using A F r n by (simp add: ExportContacts_def openOutput_def)
qed

text \<open>
  Claim C7, amended. For a format other than \<open>csv\<close> and \<open>json\<close>,
  \<open>ExportContacts\<close> first loads the contacts, and a load error is what it reports
  then. After a successful load it opens the destination: an existing output file and
  a failed creation are reported as such; otherwise the unsupported format is reported,
  after the output file, if one was named, has been created empty. In every case nothing
  is written to a file or to standard output.
\<close>

theorem ExportContacts_unsupported_format:
  assumes "format \<noteq> ''csv''" and "format \<noteq> ''json''"
  shows
  "(\<forall>e. fst (loadAndFilterContacts paths filt w) = Inl e \<longrightarrow>
      fst (ExportContacts enc paths format delimiter output filt w) = Some e \<and>
      files (snd (ExportContacts enc paths format delimiter output filt w)) = files w \<and>
      stdout (snd (ExportContacts enc paths format delimiter output filt w)) = stdout w) \<and>
   (\<forall>cs. fst (loadAndFilterContacts paths filt w) = Inr cs \<longrightarrow>
      (output = [] \<longrightarrow>
         fst (ExportContacts enc paths format delimiter output filt w)
           = Some (UnsupportedFormat format) \<and>
         files (snd (ExportContacts enc paths format delimiter output filt w)) = files w \<and>
         stdout (snd (ExportContacts enc paths format delimiter output filt w)) = stdout w) \<and>
      (output \<noteq> [] \<and> files w output \<noteq> None \<longrightarrow>
         fst (ExportContacts enc paths format delimiter output filt w)
           = Some (OutputFileExists output) \<and>
         files (snd (ExportContacts enc paths format delimiter output filt w)) = files w \<and>
         stdout (snd (ExportContacts enc paths format delimiter output filt w)) = stdout w) \<and>
      (output \<noteq> [] \<and> files w output = None \<and> create_fails w output \<longrightarrow>
         fst (ExportContacts enc paths format delimiter output filt w)
           = Some (FailedToCreateOutput output) \<and>
         files (snd (ExportContacts enc paths format delimiter output filt w)) = files w \<and>
         stdout (snd (ExportContacts enc paths format delimiter output filt w)) = stdout w) \<and>
      (output \<noteq> [] \<and> files w output = None \<and> \<not> create_fails w output \<longrightarrow>
         fst (ExportContacts enc paths format delimiter output filt w)
           = Some (UnsupportedFormat format) \<and>
         files (snd (ExportContacts enc paths format delimiter output filt w))
           = (files w)(output := Some []) \<and>
         stdout (snd (ExportContacts enc paths format delimiter output filt w)) = stdout w))"
proof -
  obtain r w1 where A: "loadAndFilterContacts paths filt w = (r, w1)"
    by (cases "loadAndFilterContacts paths filt w") auto
  with loadAndFilterContacts_elog[of w paths filt] have "elog w w1" by simp
  then have F: "files w1 = files w" "create_fails w1 = create_fails w" "stdout w1 = stdout w"
    using elog_fields by blast+
  show ?thesis using A F assms
    by (cases r) (auto simp: ExportContacts_def openOutput_def)
qed

theorem ExportContacts_unsupported_format_witness:
  "fst (ExportContacts exampleEncoders [''book''] ''xml'' '','' ''out.xml'' [] exampleWorld)
     = Some (UnsupportedFormat ''xml'') \<and>
   files (snd (ExportContacts exampleEncoders [''book''] ''xml'' '','' ''out.xml'' [] exampleWorld))
     = (files exampleWorld)(''out.xml'' := Some []) \<and>
   stdout (snd (ExportContacts exampleEncoders [''book''] ''xml'' '','' ''out.xml'' [] exampleWorld))
     = stdout exampleWorld"
proof -
  have f: "''xml'' \<noteq> ''csv''" "''xml'' \<noteq> ''json''" by simp_all
  have o: "''out.xml'' \<noteq> [] \<and> files exampleWorld ''out.xml'' = None \<and>
           \<not> create_fails exampleWorld ''out.xml''"
    by (simp add: exampleWorld_def)
  note T = ExportContacts_unsupported_format[OF f, of "[''book'']" "[]" exampleWorld
             exampleEncoders "'',''" "''out.xml''"]
  from conjunct2[OF T] example_book_loads o show ?thesis by blast
qed

section \<open>Birthdays\<close>

lemma is_digit_val: "is_digit c \<Longrightarrow> 0 \<le> digit_val c \<and> digit_val c \<le> 9"
  by (auto simp: is_digit_def digit_val_def less_eq_char_def)

lemma is_digit_char: "is_digit c \<Longrightarrow> char_of (48 + nat (digit_val c)) = c"
proof -
  assume d: "is_digit c"
  then have "48 \<le> (of_char c :: nat)" by (simp add: is_digit_def less_eq_char_def)
  then have "48 + nat (digit_val c) = (of_char c :: nat)" by (simp add: digit_val_def)
  then show ?thesis by simp
qed

lemma digit_not_space: "is_digit c \<Longrightarrow> \<not> asciiSpace c"
  by (auto simp: is_digit_def asciiSpace_def)

lemma digit_not_dash: "is_digit c \<Longrightarrow> c \<noteq> CHR ''-''"
  by (auto simp: is_digit_def)

lemma char_of_48: "char_of (48::nat) = CHR ''0''"
  by (simp add: char_of_eq_iff)

lemma dec_digits_small: "n < 10 \<Longrightarrow> dec_digits n = [char_of (48 + n)]"
  by (simp add: dec_digits.simps)

lemma dec_digits_snoc:
  "b < 10 \<Longrightarrow> dec_digits (10 * a + b) = (if a = 0 then [] else dec_digits a) @ [char_of (48 + b)]"
  by (subst dec_digits.simps) simp

lemma fmt_2_digits:
  assumes "is_digit a" "is_digit b"
  shows "fmt_0d 2 (digit_val a * 10 + digit_val b) = [a, b]"
proof -
  define A where "A = nat (digit_val a)"
  define B where "B = nat (digit_val b)"
  have r: "A < 10" "B < 10" using assms[THEN is_digit_val] by (auto simp: A_def B_def)
  have v: "digit_val a * 10 + digit_val b = int (10 * A + B)"
    using assms[THEN is_digit_val] by (auto simp: A_def B_def)
  have ca: "char_of (48 + A) = a" and cb: "char_of (48 + B) = b"
    using assms[THEN is_digit_char] by (auto simp: A_def B_def)
  have e: "dec_digits (10 * A + B) = (if A = 0 then [] else dec_digits A) @ [b]"
    by (simp only: dec_digits_snoc[OF r(2)] cb)
  have sa: "dec_digits A = [a]" using r ca by (simp add: dec_digits_small)
  have z: "A = 0 \<Longrightarrow> a = CHR ''0''" using ca char_of_48 by auto
  have "replicate (2 - length (dec_digits (10 * A + B))) CHR ''0'' @ dec_digits (10 * A + B)
          = [a, b]"
    unfolding e using sa z by (cases "A = 0") (simp_all add: eval_nat_numeral)
  then show ?thesis unfolding v fmt_0d_def by (simp only: nat_int of_nat_less_0_iff if_False)
qed

lemma fmt_4_digits:
  assumes "is_digit a" "is_digit b" "is_digit c" "is_digit d"
  shows "fmt_0d 4 (((digit_val a * 10 + digit_val b) * 10 + digit_val c) * 10 + digit_val d)
           = [a, b, c, d]"
proof -
  define A where "A = nat (digit_val a)"
  define B where "B = nat (digit_val b)"
  define C where "C = nat (digit_val c)"
  define D where "D = nat (digit_val d)"
  have r: "A < 10" "B < 10" "C < 10" "D < 10"
    using assms[THEN is_digit_val] by (auto simp: A_def B_def C_def D_def)
  have v: "((digit_val a * 10 + digit_val b) * 10 + digit_val c) * 10 + digit_val d
             = int (10 * (10 * (10 * A + B) + C) + D)"
    using assms[THEN is_digit_val] by (auto simp: A_def B_def C_def D_def)
  have ch: "char_of (48 + A) = a" "char_of (48 + B) = b" "char_of (48 + C) = c"
    "char_of (48 + D) = d"
    using assms[THEN is_digit_char] by (auto simp: A_def B_def C_def D_def)
  have z: "A = 0 \<Longrightarrow> a = CHR ''0''" "B = 0 \<Longrightarrow> b = CHR ''0''" "C = 0 \<Longrightarrow> c = CHR ''0''"
    using ch char_of_48 by auto
  have sa: "dec_digits A = [a]" using r ch by (simp add: dec_digits_small)
  have e: "dec_digits (10 * (10 * (10 * A + B) + C) + D)
             = (if 10 * (10 * A + B) + C = 0 then []
                else (if 10 * A + B = 0 then []
                      else (if A = 0 then [] else dec_digits A) @ [b]) @ [c]) @ [d]"
    by (simp only: dec_digits_snoc[OF r(4)] dec_digits_snoc[OF r(3)] dec_digits_snoc[OF r(2)] ch)
  have "replicate (4 - length (dec_digits (10 * (10 * (10 * A + B) + C) + D))) CHR ''0''
               @ dec_digits (10 * (10 * (10 * A + B) + C) + D) = [a, b, c, d]"
    unfolding e sa using z
    by (cases "A = 0"; cases "B = 0"; cases "C = 0") (simp_all add: eval_nat_numeral)
  then show ?thesis unfolding v fmt_0d_def by (simp only: nat_int of_nat_less_0_iff if_False)
qed

lemma atoi_4_digits:
  assumes "is_digit a" "is_digit b" "is_digit c" "is_digit d"
  shows "atoi [a, b, c, d]
           = Some (((digit_val a * 10 + digit_val b) * 10 + digit_val c) * 10 + digit_val d)"
  using assms by (simp add: atoi_def)

lemma getnum_2_digits:
  "is_digit a \<Longrightarrow> is_digit b \<Longrightarrow> getnum (a # b # r) True = Some (digit_val a * 10 + digit_val b, r)"
  by (simp add: getnum_def)

lemma parse_iso_date:
  assumes dg: "is_digit y1" "is_digit y2" "is_digit y3" "is_digit y4"
              "is_digit m1" "is_digit m2" "is_digit d1" "is_digit d2"
      and m: "1 \<le> digit_val m1 * 10 + digit_val m2" "digit_val m1 * 10 + digit_val m2 \<le> 12"
      and d: "1 \<le> digit_val d1 * 10 + digit_val d2"
             "digit_val d1 * 10 + digit_val d2
                \<le> daysIn (digit_val m1 * 10 + digit_val m2)
                     (((digit_val y1 * 10 + digit_val y2) * 10 + digit_val y3) * 10 + digit_val y4)"
  shows "time_Parse layout_iso [y1, y2, y3, y4, CHR ''-'', m1, m2, CHR ''-'', d1, d2]
           = Some \<lparr>t_year = ((digit_val y1 * 10 + digit_val y2) * 10 + digit_val y3) * 10
                              + digit_val y4,
                   t_month = digit_val m1 * 10 + digit_val m2,
                   t_day = digit_val d1 * 10 + digit_val d2,
                   t_hour = 0, t_min = 0, t_sec = 0, t_nsec = 0\<rparr>"
  using assms
  by (simp add: time_Parse_def layout_iso_def atoi_4_digits getnum_2_digits HasPrefix_def
        parse_init_def time_Date_def Let_def)


lemma digit_ascii: "is_digit c \<Longrightarrow> byte c < 0x80"
  by (auto simp: is_digit_def less_eq_char_def)

lemma spaceStop_keep:
  "t \<noteq> [] \<Longrightarrow> byte (last t) < 0x80 \<Longrightarrow> \<not> asciiSpace (last t) \<Longrightarrow> spaceStop t = t"
  by (subst spaceStop.simps) simp

lemma TrimSpace_iso:
  "is_digit y1 \<Longrightarrow> is_digit d2 \<Longrightarrow>
   TrimSpace [y1, y2, y3, y4, CHR ''-'', m1, m2, CHR ''-'', d1, d2]
     = [y1, y2, y3, y4, CHR ''-'', m1, m2, CHR ''-'', d1, d2]"
  using digit_ascii[of y1] digit_ascii[of d2]
  by (simp add: TrimSpace_def digit_not_space spaceStop_keep)

lemma parseBirthday_iso:
  assumes dg: "is_digit y1" "is_digit y2" "is_digit y3" "is_digit y4"
              "is_digit m1" "is_digit m2" "is_digit d1" "is_digit d2"
      and m: "1 \<le> digit_val m1 * 10 + digit_val m2" "digit_val m1 * 10 + digit_val m2 \<le> 12"
      and d: "1 \<le> digit_val d1 * 10 + digit_val d2"
             "digit_val d1 * 10 + digit_val d2
                \<le> daysIn (digit_val m1 * 10 + digit_val m2)
                     (((digit_val y1 * 10 + digit_val y2) * 10 + digit_val y3) * 10 + digit_val y4)"
  shows "parseBirthday cy [y1, y2, y3, y4, CHR ''-'', m1, m2, CHR ''-'', d1, d2]
           = \<lparr>t_year = ((digit_val y1 * 10 + digit_val y2) * 10 + digit_val y3) * 10
                              + digit_val y4,
                   t_month = digit_val m1 * 10 + digit_val m2,
                   t_day = digit_val d1 * 10 + digit_val d2,
                   t_hour = 0, t_min = 0, t_sec = 0, t_nsec = 0\<rparr>"
proof -
  have np: "\<not> HasPrefix [y1, y2, y3, y4, CHR ''-'', m1, m2, CHR ''-'', d1, d2] ''--''"
    using digit_not_dash[OF dg(1)] by (simp add: HasPrefix_def)
  show ?thesis
    unfolding parseBirthday_def TrimSpace_iso[OF dg(1) dg(8)] formats_def
    using parse_iso_date[OF assms] np by simp
qed

lemma digits_1990_01_15:
  "is_digit CHR ''1''" "is_digit CHR ''9''" "is_digit CHR ''0''" "is_digit CHR ''5''"
  by (simp_all add: is_digit_def)





text \<open>
  Claim C8 says that every birthday string in the form \<open>YYYY-MM-DD\<close> whose year is not
  the current year is displayed as \<open>MM/DD/YYYY\<close>. The string \<open>0001-01-01\<close> parses to the
  zero time, which is the sentinel of an absent birthday, and is displayed as the empty
  text.
\<close>

theorem birthday_year_one_formats_empty:
  "FormatBirthdayForDisplay 2026 (parseBirthday 2026 ''0001-01-01'') = [] \<and>
   FormatBirthdayForDisplay 2026 (parseBirthday 2026 ''0001-01-01'') \<noteq> ''01/01/0001''"
proof -
  have d: "is_digit CHR ''0''" "is_digit CHR ''1''" by (simp_all add: is_digit_def)
  have v: "digit_val CHR ''1'' = 1" "digit_val CHR ''0'' = 0" by (simp_all add: digit_val_def)
  have "parseBirthday 2026 ''0001-01-01'' = zeroTime"
    by (subst parseBirthday_iso) (simp_all add: d v daysIn_def zeroTime_def)
  then show ?thesis by (simp add: FormatBirthdayForDisplay_def IsZero_def)
qed

text \<open>
  Claim C8, amended. Every string \<open>YYYY-MM-DD\<close> of digits that denotes a calendar date,
  with a year other than the current year, and that is not \<open>0001-01-01\<close>, is parsed and
  displayed as \<open>MM/DD/YYYY\<close> with its own month, day and year.
\<close>

theorem birthday_iso_roundtrip:
  assumes dg: "is_digit y1" "is_digit y2" "is_digit y3" "is_digit y4"
              "is_digit m1" "is_digit m2" "is_digit d1" "is_digit d2"
      and m: "1 \<le> digit_val m1 * 10 + digit_val m2" "digit_val m1 * 10 + digit_val m2 \<le> 12"
      and d: "1 \<le> digit_val d1 * 10 + digit_val d2"
             "digit_val d1 * 10 + digit_val d2
                \<le> daysIn (digit_val m1 * 10 + digit_val m2)
                     (((digit_val y1 * 10 + digit_val y2) * 10 + digit_val y3) * 10 + digit_val y4)"
      and y: "((digit_val y1 * 10 + digit_val y2) * 10 + digit_val y3) * 10 + digit_val y4 \<noteq> cy"
      and nz: "[y1, y2, y3, y4, CHR ''-'', m1, m2, CHR ''-'', d1, d2] \<noteq> ''0001-01-01''"
  shows "FormatBirthdayForDisplay cy
           (parseBirthday cy [y1, y2, y3, y4, CHR ''-'', m1, m2, CHR ''-'', d1, d2])
         = [m1, m2, CHR ''/'', d1, d2, CHR ''/'', y1, y2, y3, y4]"
proof -
  let ?y = "((digit_val y1 * 10 + digit_val y2) * 10 + digit_val y3) * 10 + digit_val y4"
  let ?m = "digit_val m1 * 10 + digit_val m2"
  let ?d = "digit_val d1 * 10 + digit_val d2"
  let ?t = "\<lparr>t_year = ?y, t_month = ?m, t_day = ?d, t_hour = 0, t_min = 0, t_sec = 0,
             t_nsec = 0\<rparr>"
  have fy: "fmt_0d 4 ?y = [y1, y2, y3, y4]" by (rule fmt_4_digits[OF dg(1-4)])
  have fm: "fmt_0d 2 ?m = [m1, m2]" by (rule fmt_2_digits[OF dg(5,6)])
  have fd: "fmt_0d 2 ?d = [d1, d2]" by (rule fmt_2_digits[OF dg(7,8)])
  have dd: "dec_digits (Suc 0) = ''1''" by (simp add: dec_digits_small char_of_eq_iff)
  have one: "fmt_0d 4 1 = ''0001''" "fmt_0d 2 1 = ''01''"
    by (simp_all add: fmt_0d_def dd numeral_3_eq_3)
  have "\<not> (?y = 1 \<and> ?m = 1 \<and> ?d = 1)"
  proof
    assume a: "?y = 1 \<and> ?m = 1 \<and> ?d = 1"
    have "[y1, y2, y3, y4] = ''0001''" using fy one a by (simp only:)
    moreover have "[m1, m2] = ''01''" using fm one a by (simp only:)
    moreover have "[d1, d2] = ''01''"using fd one a by (simp only:)
    ultimately show False using nz by simp
  qed
  then have z: "\<not> IsZero ?t" by (auto simp: IsZero_def zeroTime_def)
  have "FormatBirthdayForDisplay cy ?t
          = fmt_0d 2 ?m @ ''/'' @ fmt_0d 2 ?d @ ''/'' @ fmt_0d 4 ?y"
    using z y by (simp only: FormatBirthdayForDisplay_def Time.select_convs if_False)
  then show ?thesis unfolding parseBirthday_iso[OF dg m d] fy fm fd by simp
qed

theorem birthday_iso_roundtrip_witness:
  "FormatBirthdayForDisplay 2026 (parseBirthday 2026 ''1990-01-15'') = ''01/15/1990''"
proof -
  note d = digits_1990_01_15
  have v: "digit_val CHR ''1'' = 1" "digit_val CHR ''9'' = 9" "digit_val CHR ''0'' = 0"
    "digit_val CHR ''5'' = 5" by (simp_all add: digit_val_def)
  show ?thesis
    by (rule birthday_iso_roundtrip[of "CHR ''1''" "CHR ''9''" "CHR ''9''" "CHR ''0''"
        "CHR ''0''" "CHR ''1''" "CHR ''1''" "CHR ''5''" 2026])
       (simp_all add: d v daysIn_def)
qed

subsection \<open>Dates that are not absent\<close>












end
